theory Spec2Isabelle
  imports Complex_Main "HOL-Library.Sublist"
begin

section \<open>JavaScript strings\<close>

text \<open>
  A JavaScript string is a sequence of UTF-16 code units.  The model uses \<open>string\<close>
  (a \<open>char list\<close>) and reads each \<open>char\<close> as one code unit in the range
  U+0000..U+00FF (Latin-1), so that \<open>length\<close> is the JavaScript \<open>.length\<close>.
  Code units above U+00FF are outside the model.
\<close>

definition code :: "char \<Rightarrow> nat" where
  "code c = of_char c"

text \<open>
  The characters matched by the regular expression class \<open>\s\<close> and stripped by
  \<open>String.prototype.trim\<close>: TAB, LF, VT, FF, CR, SPACE and NO-BREAK SPACE (the members of
  the class below U+0100).
\<close>

definition is_space :: "char \<Rightarrow> bool" where
  "is_space c = (code c = 9 \<or> code c = 10 \<or> code c = 11 \<or> code c = 12 \<or> code c = 13
                 \<or> code c = 32 \<or> code c = 160)"

text \<open>
  \<open>String.prototype.toLowerCase\<close> on one code unit: A..Z and the Latin-1 capitals
  U+00C0..U+00DE (without the multiplication sign U+00D7) move up by 32.
\<close>

definition lower_char :: "char \<Rightarrow> char" where
  "lower_char c =
     (if (65 \<le> code c \<and> code c \<le> 90) \<or> (192 \<le> code c \<and> code c \<le> 222 \<and> code c \<noteq> 215)
      then char_of (code c + 32) else c)"

definition toLowerCase :: "string \<Rightarrow> string" where
  "toLowerCase s = map lower_char s"

text \<open>\<open>s.replace(/_/g, " ")\<close>\<close>

definition replace_underscores :: "string \<Rightarrow> string" where
  "replace_underscores s = map (\<lambda>c. if c = CHR ''_'' then CHR '' '' else c) s"

text \<open>\<open>s.replace(/\s+/g, " ")\<close>: every maximal run of whitespace becomes one space.\<close>

function collapse_ws :: "string \<Rightarrow> string" where
  "collapse_ws [] = []"
| "collapse_ws (c # cs) =
     (if is_space c then CHR '' '' # collapse_ws (dropWhile is_space cs)
      else c # collapse_ws cs)"
  by pat_completeness auto
termination
  by (relation "measure length") (auto simp: length_dropWhile_le less_Suc_eq_le)

text \<open>\<open>s.trim()\<close>\<close>

definition trim :: "string \<Rightarrow> string" where
  "trim s = rev (dropWhile is_space (rev (dropWhile is_space s)))"

section \<open>ingestion.ts: normalizeConcepts\<close>

definition normalizeConcept :: "string \<Rightarrow> string" where
  "normalizeConcept c = trim (collapse_ws (replace_underscores (toLowerCase c)))"

definition normalizeConcepts :: "string list \<Rightarrow> string list" where
  "normalizeConcepts concepts = filter (\<lambda>c. length c > 0) (map normalizeConcept concepts)"

text \<open>A run of two or more adjacent whitespace characters.\<close>

fun has_ws_run :: "string \<Rightarrow> bool" where
  "has_ws_run (a # b # cs) = ((is_space a \<and> is_space b) \<or> has_ws_run (b # cs))"
| "has_ws_run _ = False"

text \<open>
  The shape of a normalised concept: lowercase, without underscore, without a run of
  whitespace, trimmed and not empty.
\<close>

definition concept_ok :: "string \<Rightarrow> bool" where
  "concept_ok c \<longleftrightarrow> toLowerCase c = c \<and> CHR ''_'' \<notin> set c \<and> \<not> has_ws_run c \<and> trim c = c \<and> c \<noteq> []"

section \<open>JavaScript values used by the services\<close>

text \<open>
  A thrown value.  \<open>err_name\<close> and \<open>err_message\<close> are the \<open>name\<close> and \<open>message\<close> of the
  Error object; the other three fields are what \<open>withRetry\<close> reads from an AxiosError:
  \<open>response?.status\<close>, \<open>response?.data?.error?.metadata?.provider_name\<close> and
  \<open>response?.headers?.["retry-after"]\<close> (\<open>None\<close> when the chain is undefined).
\<close>

record error =
  err_name :: string
  err_message :: string
  err_status :: "int option"
  err_provider_name :: "string option"
  err_retry_after :: "string option"

definition Error :: "string \<Rightarrow> error" where
  "Error msg = \<lparr>err_name = ''Error'', err_message = msg, err_status = None,
                err_provider_name = None, err_retry_after = None\<rparr>"

definition SyntaxError :: "string \<Rightarrow> error" where
  "SyntaxError msg = \<lparr>err_name = ''SyntaxError'', err_message = msg, err_status = None,
                      err_provider_name = None, err_retry_after = None\<rparr>"

definition TypeError :: "string \<Rightarrow> error" where
  "TypeError msg = \<lparr>err_name = ''TypeError'', err_message = msg, err_status = None,
                    err_provider_name = None, err_retry_after = None\<rparr>"

text \<open>A JavaScript number that is an integer, or NaN.\<close>

datatype number = Num int | NaN

fun number_times :: "number \<Rightarrow> int \<Rightarrow> number" where
  "number_times (Num n) k = Num (n * k)"
| "number_times NaN k = NaN"

text \<open>\<open>Math.max(a, b)\<close>: NaN when either argument is NaN.\<close>

fun Math_max :: "number \<Rightarrow> number \<Rightarrow> number" where
  "Math_max (Num a) (Num b) = Num (max a b)"
| "Math_max _ _ = NaN"

text \<open>\<open>s || d\<close> on a possibly undefined string: the empty string is falsy.\<close>

fun str_or :: "string option \<Rightarrow> string \<Rightarrow> string" where
  "str_or None d = d"
| "str_or (Some s) d = (if s = [] then d else s)"

text \<open>\<open>n || d\<close> on a possibly undefined number: zero is falsy.\<close>

fun num_or :: "int option \<Rightarrow> int \<Rightarrow> int" where
  "num_or None d = d"
| "num_or (Some n) d = (if n = 0 then d else n)"

text \<open>\<open>s || null\<close>\<close>

fun str_or_null :: "string option \<Rightarrow> string option" where
  "str_or_null None = None"
| "str_or_null (Some s) = (if s = [] then None else Some s)"

subsection \<open>parseInt\<close>

text \<open>
  \<open>parseInt(s)\<close> with no radix: leading whitespace is skipped, a sign is read, a prefix
  \<open>0x\<close> or \<open>0X\<close> selects radix 16, and the longest prefix of digits is converted; NaN when
  that prefix is empty.
\<close>

definition digit_value :: "char \<Rightarrow> nat option" where
  "digit_value c =
     (if 48 \<le> code c \<and> code c \<le> 57 then Some (code c - 48)
      else if 97 \<le> code c \<and> code c \<le> 102 then Some (code c - 87)
      else if 65 \<le> code c \<and> code c \<le> 70 then Some (code c - 55)
      else None)"

definition is_digit_in :: "nat \<Rightarrow> char \<Rightarrow> bool" where
  "is_digit_in radix c = (case digit_value c of None \<Rightarrow> False | Some v \<Rightarrow> v < radix)"

definition digits_value :: "nat \<Rightarrow> string \<Rightarrow> nat" where
  "digits_value radix ds = foldl (\<lambda>acc c. acc * radix + (case digit_value c of None \<Rightarrow> 0 | Some v \<Rightarrow> v)) 0 ds"

definition parseInt :: "string \<Rightarrow> number" where
  "parseInt s =
     (let s0 = dropWhile is_space s;
          (sign, s1) = (case s0 of
                          c # r \<Rightarrow> if c = CHR ''-'' then (-1, r)
                                   else if c = CHR ''+'' then (1, r) else (1::int, s0)
                        | [] \<Rightarrow> (1, s0));
          (radix, s2) = (case s1 of
                           z # x # r \<Rightarrow> if z = CHR ''0'' \<and> (x = CHR ''x'' \<or> x = CHR ''X'')
                                        then (16, r) else (10::nat, s1)
                         | _ \<Rightarrow> (10, s1));
          z = takeWhile (is_digit_in radix) s2
      in if z = [] then NaN else Num (sign * int (digits_value radix z)))"

section \<open>openrouter.ts\<close>

subsection \<open>JSON.parse\<close>

text \<open>
  The built-in \<open>JSON.parse\<close>, following the JSON grammar (ECMA-404).  A parsed string holds
  its code units; a number keeps its literal text.  The recursion on nested values is
  driven by a fuel argument that \<open>JSON_parse\<close> sets beyond the nesting depth any text of
  that length can have.
\<close>

datatype json =
    JNull
  | JBool bool
  | JNumber string
  | JString "nat list"
  | JArray "json list"
  | JObject "(nat list \<times> json) list"

definition json_ws :: "char \<Rightarrow> bool" where
  "json_ws c = (code c = 32 \<or> code c = 9 \<or> code c = 10 \<or> code c = 13)"

definition skip_ws :: "string \<Rightarrow> string" where
  "skip_ws s = dropWhile json_ws s"

definition hex4 :: "char \<Rightarrow> char \<Rightarrow> char \<Rightarrow> char \<Rightarrow> nat option" where
  "hex4 a b c d =
     (case (digit_value a, digit_value b, digit_value c, digit_value d) of
        (Some p, Some q, Some r, Some s) \<Rightarrow> Some (((p * 16 + q) * 16 + r) * 16 + s)
      | _ \<Rightarrow> None)"

fun parse_string_body :: "string \<Rightarrow> nat list \<Rightarrow> (nat list \<times> string) option" where
  "parse_string_body [] acc = None"
| "parse_string_body (c # r) acc =
     (if c = CHR 0x22 then Some (rev acc, r)
      else if c = CHR 0x5C then
        (case r of
           [] \<Rightarrow> None
         | e # r' \<Rightarrow>
             if e = CHR 0x22 \<or> e = CHR 0x5C \<or> e = CHR ''/'' then parse_string_body r' (code e # acc)
             else if e = CHR ''b'' then parse_string_body r' (8 # acc)
             else if e = CHR ''f'' then parse_string_body r' (12 # acc)
             else if e = CHR ''n'' then parse_string_body r' (10 # acc)
             else if e = CHR ''r'' then parse_string_body r' (13 # acc)
             else if e = CHR ''t'' then parse_string_body r' (9 # acc)
             else if e = CHR ''u'' then
               (case r' of
                  h1 # h2 # h3 # h4 # r'' \<Rightarrow>
                    (case hex4 h1 h2 h3 h4 of
                       None \<Rightarrow> None
                     | Some u \<Rightarrow> parse_string_body r'' (u # acc))
                | _ \<Rightarrow> None)
             else None)
      else if code c < 32 then None
      else parse_string_body r (code c # acc))"

definition is_dec :: "char \<Rightarrow> bool" where
  "is_dec c = (48 \<le> code c \<and> code c \<le> 57)"

definition parse_int_part :: "string \<Rightarrow> (string \<times> string) option" where
  "parse_int_part s =
     (case s of
        [] \<Rightarrow> None
      | d # r \<Rightarrow> if d = CHR ''0'' then Some ([d], r)
                 else if is_dec d then Some (d # takeWhile is_dec r, dropWhile is_dec r)
                 else None)"

definition parse_frac_part :: "string \<Rightarrow> (string \<times> string) option" where
  "parse_frac_part s =
     (case s of
        d # r \<Rightarrow> if d = CHR ''.'' then
                   (if takeWhile is_dec r = [] then None
                    else Some (d # takeWhile is_dec r, dropWhile is_dec r))
                 else Some ([], s)
      | [] \<Rightarrow> Some ([], s))"

definition parse_exp_part :: "string \<Rightarrow> (string \<times> string) option" where
  "parse_exp_part s =
     (case s of
        e # r \<Rightarrow>
          if e = CHR ''e'' \<or> e = CHR ''E'' then
            (let (sg, r1) = (case r of
                               g # r' \<Rightarrow> if g = CHR ''+'' \<or> g = CHR ''-'' then ([g], r') else ([], r)
                             | [] \<Rightarrow> ([], r))
             in if takeWhile is_dec r1 = [] then None
                else Some (e # sg @ takeWhile is_dec r1, dropWhile is_dec r1))
          else Some ([], s)
      | [] \<Rightarrow> Some ([], s))"

definition parse_number :: "string \<Rightarrow> (json \<times> string) option" where
  "parse_number s =
     (let (sg, s1) = (case s of
                        c # r \<Rightarrow> if c = CHR ''-'' then ([c], r) else ([], s)
                      | [] \<Rightarrow> ([], s))
      in case parse_int_part s1 of
           None \<Rightarrow> None
         | Some (i, s2) \<Rightarrow>
             (case parse_frac_part s2 of
                None \<Rightarrow> None
              | Some (f, s3) \<Rightarrow>
                  (case parse_exp_part s3 of
                     None \<Rightarrow> None
                   | Some (e, s4) \<Rightarrow> Some (JNumber (sg @ i @ f @ e), s4))))"

type_synonym parse_result = "(json \<times> string) option"

text \<open>
  One level of each of the three mutually recursive parsers (value, array elements, object
  members); the parsers of the level below are the first arguments.
\<close>

definition parse_value_step ::
  "(string \<Rightarrow> json list \<Rightarrow> parse_result) \<Rightarrow> (string \<Rightarrow> (nat list \<times> json) list \<Rightarrow> parse_result)
   \<Rightarrow> string \<Rightarrow> parse_result" where
  "parse_value_step elements members s =
     (let t = skip_ws s in
      if take 4 t = ''null'' then Some (JNull, drop 4 t)
      else if take 4 t = ''true'' then Some (JBool True, drop 4 t)
      else if take 5 t = ''false'' then Some (JBool False, drop 5 t)
      else case t of
        [] \<Rightarrow> None
      | c # r \<Rightarrow>
          if c = CHR 0x22 then
            (case parse_string_body r [] of
               None \<Rightarrow> None
             | Some (str, r') \<Rightarrow> Some (JString str, r'))
          else if c = CHR ''['' then
            (if take 1 (skip_ws r) = '']'' then Some (JArray [], drop 1 (skip_ws r))
             else elements r [])
          else if c = CHR ''{'' then
            (if take 1 (skip_ws r) = ''}'' then Some (JObject [], drop 1 (skip_ws r))
             else members r [])
          else parse_number t)"

definition parse_elements_step ::
  "(string \<Rightarrow> parse_result) \<Rightarrow> (string \<Rightarrow> json list \<Rightarrow> parse_result)
   \<Rightarrow> string \<Rightarrow> json list \<Rightarrow> parse_result" where
  "parse_elements_step val elements s acc =
     (case val s of
        None \<Rightarrow> None
      | Some (v, r) \<Rightarrow>
          if take 1 (skip_ws r) = '','' then elements (drop 1 (skip_ws r)) (v # acc)
          else if take 1 (skip_ws r) = '']'' then Some (JArray (rev (v # acc)), drop 1 (skip_ws r))
          else None)"

definition parse_members_step ::
  "(string \<Rightarrow> parse_result) \<Rightarrow> (string \<Rightarrow> (nat list \<times> json) list \<Rightarrow> parse_result)
   \<Rightarrow> string \<Rightarrow> (nat list \<times> json) list \<Rightarrow> parse_result" where
  "parse_members_step val members s acc =
     (if take 1 (skip_ws s) = [CHR 0x22] then
        (case parse_string_body (drop 1 (skip_ws s)) [] of
           None \<Rightarrow> None
         | Some (k, r) \<Rightarrow>
             if take 1 (skip_ws r) = '':'' then
               (case val (drop 1 (skip_ws r)) of
                  None \<Rightarrow> None
                | Some (v, r') \<Rightarrow>
                    if take 1 (skip_ws r') = '','' then
                      members (drop 1 (skip_ws r')) ((k, v) # acc)
                    else if take 1 (skip_ws r') = ''}'' then
                      Some (JObject (rev ((k, v) # acc)), drop 1 (skip_ws r'))
                    else None)
             else None)
      else None)"

primrec parsers ::
  "nat \<Rightarrow> (string \<Rightarrow> parse_result) \<times> (string \<Rightarrow> json list \<Rightarrow> parse_result)
        \<times> (string \<Rightarrow> (nat list \<times> json) list \<Rightarrow> parse_result)" where
  "parsers 0 = ((\<lambda>s. None), (\<lambda>s acc. None), (\<lambda>s acc. None))"
| "parsers (Suc n) =
     (case parsers n of
        (val, elements, members) \<Rightarrow>
          (parse_value_step elements members,
           parse_elements_step val elements,
           parse_members_step val members))"

definition parse_value :: "nat \<Rightarrow> string \<Rightarrow> parse_result" where
  "parse_value fuel = fst (parsers fuel)"

definition parse_elements :: "nat \<Rightarrow> string \<Rightarrow> json list \<Rightarrow> parse_result" where
  "parse_elements fuel = fst (snd (parsers fuel))"

definition parse_members :: "nat \<Rightarrow> string \<Rightarrow> (nat list \<times> json) list \<Rightarrow> parse_result" where
  "parse_members fuel = snd (snd (parsers fuel))"

definition JSON_parse :: "string \<Rightarrow> error + json" where
  "JSON_parse content =
     (case parse_value (2 * length content + 2) content of
        None \<Rightarrow> Inl (SyntaxError ''Unexpected token in JSON'')
      | Some (v, r) \<Rightarrow>
          if skip_ws r = [] then Inr v else Inl (SyntaxError ''Unexpected token in JSON''))"

subsection \<open>parseJsonResponse\<close>

text \<open>
  \<open>content.match(/\\{[\\s\\S]*\\}/)\<close>: the match starts at the first \<open>{\<close> and, the star being
  greedy over every character, ends at the last \<open>}\<close> of the text; there is no match when no
  \<open>}\<close> follows the first \<open>{\<close>.
\<close>

definition match_braces :: "string \<Rightarrow> string option" where
  "match_braces content =
     (let from_open = dropWhile (\<lambda>c. c \<noteq> CHR ''{'') content;
          m = rev (dropWhile (\<lambda>c. c \<noteq> CHR ''}'') (rev from_open))
      in if m = [] then None else Some m)"

definition parseJsonResponse :: "string \<Rightarrow> error + json" where
  "parseJsonResponse content =
     (case JSON_parse content of
        Inr v \<Rightarrow> Inr v
      | Inl _ \<Rightarrow>
          (case match_braces content of
             Some m \<Rightarrow> JSON_parse m
           | None \<Rightarrow> Inl (Error (''Failed to parse JSON from response: '' @ take 200 content))))"

text \<open>
  The first balanced \<open>{...}\<close> substring of a text, as the specification words the
  fallback: from each \<open>{\<close> in turn, the shortest stretch in which the braces opened are
  all closed.  It is compared with \<open>match_braces\<close>; no function of the source computes it.
\<close>

fun balanced_prefix :: "string \<Rightarrow> nat \<Rightarrow> string \<Rightarrow> string option" where
  "balanced_prefix [] depth acc = None"
| "balanced_prefix (c # r) depth acc =
     (if c = CHR ''{'' then balanced_prefix r (Suc depth) (c # acc)
      else if c = CHR ''}'' then
        (case depth of
           0 \<Rightarrow> None
         | Suc 0 \<Rightarrow> Some (rev (c # acc))
         | Suc d \<Rightarrow> balanced_prefix r d (c # acc))
      else balanced_prefix r depth (c # acc))"

fun first_balanced :: "string \<Rightarrow> string option" where
  "first_balanced [] = None"
| "first_balanced (c # r) =
     (if c = CHR ''{'' then
        (case balanced_prefix (c # r) 0 [] of
           Some m \<Rightarrow> Some m
         | None \<Rightarrow> first_balanced r)
      else first_balanced r)"

subsection \<open>withRetry\<close>

text \<open>
  The decision taken in the \<open>catch\<close> block of one attempt: \<open>Some delay\<close> to sleep and
  \<open>continue\<close>, \<open>None\<close> to rethrow the error.  The branches keep the order of the source.
  (The \<open>console\<close> calls are not modelled; the request body they re-parse was serialised
 by the HTTP client itself.)
\<close>

definition retryDecision :: "error \<Rightarrow> nat \<Rightarrow> nat \<Rightarrow> number option" where
  "retryDecision e attempt maxRetries =
     (if err_status e = Some 400 \<and> str_or (err_provider_name e) [] \<noteq> [] \<and> attempt < maxRetries
      then Some (Num (2000 * (int attempt + 1)))
      else if err_status e = Some 429 \<and> attempt < maxRetries
      then Some (Math_max (number_times (parseInt (str_or (err_retry_after e) ''0'')) 1000)
                          (Num (3000 * 2 ^ attempt)))
      else if attempt < maxRetries \<and> num_or (err_status e) 0 \<noteq> 0 \<and> num_or (err_status e) 0 \<ge> 500
      then Some (Num (2000 * 2 ^ attempt))
      else None)"

text \<open>
  \<open>withRetry(fn, maxRetries)\<close>.  \<open>fn k\<close> is the outcome of the call of \<open>fn\<close> made in
  attempt \<open>k\<close> (the loop calls it once per attempt).  The result is paired with the delays
  slept, in order.
\<close>

function withRetry_from :: "(nat \<Rightarrow> error + 'a) \<Rightarrow> nat \<Rightarrow> nat \<Rightarrow> number list
                            \<Rightarrow> (error + 'a) \<times> number list" where
  "withRetry_from fn maxRetries attempt slept =
     (if attempt \<le> maxRetries then
        (case fn attempt of
           Inr v \<Rightarrow> (Inr v, slept)
         | Inl e \<Rightarrow>
             (case retryDecision e attempt maxRetries of
                Some delay \<Rightarrow> withRetry_from fn maxRetries (Suc attempt) (slept @ [delay])
              | None \<Rightarrow> (Inl e, slept)))
      else (Inl (Error ''Max retries exceeded''), slept))"
  by pat_completeness auto
termination
  by (relation "measure (\<lambda>(fn, maxRetries, attempt, slept). Suc maxRetries - attempt)") auto

definition withRetry :: "(nat \<Rightarrow> error + 'a) \<Rightarrow> nat \<Rightarrow> (error + 'a) \<times> number list" where
  "withRetry fn maxRetries = withRetry_from fn maxRetries 0 []"


section \<open>models: Story and Comment\<close>

text \<open>
  The two Sequelize models.  A table is the list of its rows in insertion order; the
  auto-increment primary key of a row is its position, so an instance is addressed by
  that position.  The unique index on \<open>hnId\<close> is enforced by \<open>create\<close>.  The columns
  \<open>createdAt\<close> and \<open>updatedAt\<close> are not modelled.
\<close>

record Story =
  s_hnId :: int
  s_title :: string
  s_url :: "string option"
  s_text :: "string option"
  s_by :: string
  s_score :: int
  s_time :: int
  s_descendants :: int
  s_coreIdea :: "string option"
  s_concepts :: "string list option"
  s_technologies :: "string list option"
  s_entities :: "string list option"
  s_communityAngle :: "string option"
  s_sentiment :: "string option"
  s_sentimentScore :: "real option"
  s_controversyPotential :: "string option"
  s_intellectualDepth :: "string option"
  s_analysisVersion :: "string option"
  s_embedded :: bool
  s_processedAt :: "int option"

record Comment =
  c_hnId :: int
  c_storyHnId :: int
  c_parentHnId :: "int option"
  c_text :: "string option"
  c_by :: "string option"
  c_time :: int
  c_argumentSummary :: "string option"
  c_concepts :: "string list option"
  c_technologies :: "string list option"
  c_entities :: "string list option"
  c_commentType :: "string option"
  c_sentiment :: "string option"
  c_sentimentScore :: "real option"
  c_analysisVersion :: "string option"
  c_embedded :: bool
  c_processedAt :: "int option"

text \<open>
  The argument of \<open>instance.update({...})\<close>: one optional entry for each column that some
  call site writes; \<open>None\<close> is a key that the object literal does not have.
\<close>

record StoryPatch =
  sp_score :: "int option"
  sp_descendants :: "int option"
  sp_coreIdea :: "string option"
  sp_concepts :: "string list option"
  sp_technologies :: "string list option"
  sp_entities :: "string list option"
  sp_communityAngle :: "string option"
  sp_sentiment :: "string option"
  sp_sentimentScore :: "real option"
  sp_controversyPotential :: "string option"
  sp_intellectualDepth :: "string option"
  sp_analysisVersion :: "string option"
  sp_embedded :: "bool option"
  sp_processedAt :: "int option"

record CommentPatch =
  cp_argumentSummary :: "string option"
  cp_concepts :: "string list option"
  cp_technologies :: "string list option"
  cp_entities :: "string list option"
  cp_commentType :: "string option"
  cp_sentiment :: "string option"
  cp_sentimentScore :: "real option"
  cp_analysisVersion :: "string option"
  cp_embedded :: "bool option"
  cp_processedAt :: "int option"

text \<open>Writing a key of a patch: a value for a column that is not nullable.\<close>

fun put :: "'a option \<Rightarrow> 'a \<Rightarrow> 'a" where
  "put None old = old"
| "put (Some v) old = v"

text \<open>Writing a key of a patch to a nullable column (the call sites never write null).\<close>

fun put_nullable :: "'a option \<Rightarrow> 'a option \<Rightarrow> 'a option" where
  "put_nullable None old = old"
| "put_nullable (Some v) old = Some v"

definition Story_update :: "StoryPatch \<Rightarrow> Story \<Rightarrow> Story" where
  "Story_update p s = s\<lparr>
     s_score := put (sp_score p) (s_score s),
     s_descendants := put (sp_descendants p) (s_descendants s),
     s_coreIdea := put_nullable (sp_coreIdea p) (s_coreIdea s),
     s_concepts := put_nullable (sp_concepts p) (s_concepts s),
     s_technologies := put_nullable (sp_technologies p) (s_technologies s),
     s_entities := put_nullable (sp_entities p) (s_entities s),
     s_communityAngle := put_nullable (sp_communityAngle p) (s_communityAngle s),
     s_sentiment := put_nullable (sp_sentiment p) (s_sentiment s),
     s_sentimentScore := put_nullable (sp_sentimentScore p) (s_sentimentScore s),
     s_controversyPotential := put_nullable (sp_controversyPotential p) (s_controversyPotential s),
     s_intellectualDepth := put_nullable (sp_intellectualDepth p) (s_intellectualDepth s),
     s_analysisVersion := put_nullable (sp_analysisVersion p) (s_analysisVersion s),
     s_embedded := put (sp_embedded p) (s_embedded s),
     s_processedAt := put_nullable (sp_processedAt p) (s_processedAt s)\<rparr>"

definition Comment_update :: "CommentPatch \<Rightarrow> Comment \<Rightarrow> Comment" where
  "Comment_update p c = c\<lparr>
     c_argumentSummary := put_nullable (cp_argumentSummary p) (c_argumentSummary c),
     c_concepts := put_nullable (cp_concepts p) (c_concepts c),
     c_technologies := put_nullable (cp_technologies p) (c_technologies c),
     c_entities := put_nullable (cp_entities p) (c_entities c),
     c_commentType := put_nullable (cp_commentType p) (c_commentType c),
     c_sentiment := put_nullable (cp_sentiment p) (c_sentiment c),
     c_sentimentScore := put_nullable (cp_sentimentScore p) (c_sentimentScore c),
     c_analysisVersion := put_nullable (cp_analysisVersion p) (c_analysisVersion c),
     c_embedded := put (cp_embedded p) (c_embedded c),
     c_processedAt := put_nullable (cp_processedAt p) (c_processedAt c)\<rparr>"

text \<open>\<open>Model.findOne({ where: ... })\<close>: the position of the first matching row.\<close>

fun find_row :: "('a \<Rightarrow> bool) \<Rightarrow> 'a list \<Rightarrow> nat option" where
  "find_row P [] = None"
| "find_row P (x # xs) = (if P x then Some 0 else map_option Suc (find_row P xs))"

definition UniqueConstraintError :: error where
  "UniqueConstraintError = \<lparr>err_name = ''SequelizeUniqueConstraintError'',
     err_message = ''Validation error'', err_status = None, err_provider_name = None,
     err_retry_after = None\<rparr>"

section \<open>hn.ts: the items of the upstream feed\<close>

record HNItem =
  i_id :: int
  i_type :: string
  i_by :: "string option"
  i_time :: int
  i_text :: "string option"
  i_url :: "string option"
  i_title :: "string option"
  i_score :: "int option"
  i_descendants :: "int option"
  i_kids :: "int list option"
  i_parent :: "int option"
  i_deleted :: "bool option"
  i_dead :: "bool option"

text \<open>Truthiness of an optional boolean.\<close>

fun flag :: "bool option \<Rightarrow> bool" where
  "flag None = False"
| "flag (Some b) = b"

section \<open>openrouter.ts: the analyses\<close>

text \<open>
  The interfaces \<open>StoryAnalysis\<close> and \<open>CommentAnalysis\<close>, with the fields and types the
  source declares.
\<close>

record StoryAnalysis =
  sa_core_idea :: string
  sa_concepts :: "string list"
  sa_technologies :: "string list"
  sa_entities :: "string list"
  sa_community_angle :: string
  sa_sentiment :: string
  sa_sentiment_score :: real
  sa_controversy_potential :: string
  sa_intellectual_depth :: string

record CommentAnalysis =
  ca_argument_summary :: string
  ca_concepts :: "string list"
  ca_technologies :: "string list"
  ca_entities :: "string list"
  ca_comment_type :: string
  ca_sentiment :: string
  ca_sentiment_score :: real

definition ANALYSIS_VERSION :: string where
  "ANALYSIS_VERSION = ''6''"

section \<open>ingestion.ts\<close>

subsection \<open>Text helpers\<close>

text \<open>\<open>s || d\<close> on a string.\<close>

definition or_str :: "string \<Rightarrow> string \<Rightarrow> string" where
  "or_str s d = (if s = [] then d else s)"

text \<open>\<open>xs.join(sep)\<close>\<close>

fun join :: "string \<Rightarrow> string list \<Rightarrow> string" where
  "join sep [] = []"
| "join sep [x] = x"
| "join sep (x # y # ys) = x @ sep @ join sep (y # ys)"

text \<open>
  \<open>JSON.stringify\<close> of a string and of an array of strings: a string is quoted, with the
  quote, the backslash and the control characters escaped; the elements of an array are
  separated by commas.
\<close>

definition hex_digit :: "nat \<Rightarrow> char" where
  "hex_digit n = (if n < 10 then char_of (48 + n) else char_of (87 + n))"

definition JSON_quote_char :: "char \<Rightarrow> string" where
  "JSON_quote_char c =
     (if c = CHR 0x22 then [CHR 0x5C, CHR 0x22]
      else if c = CHR 0x5C then [CHR 0x5C, CHR 0x5C]
      else if c = CHR 0x08 then [CHR 0x5C, CHR ''b'']
      else if c = CHR 0x0C then [CHR 0x5C, CHR ''f'']
      else if c = CHR 0x0A then [CHR 0x5C, CHR ''n'']
      else if c = CHR 0x0D then [CHR 0x5C, CHR ''r'']
      else if c = CHR 0x09 then [CHR 0x5C, CHR ''t'']
      else if code c < 32
      then [CHR 0x5C, CHR ''u'', CHR ''0'', CHR ''0'', hex_digit (code c div 16),
            hex_digit (code c mod 16)]
      else [c])"

definition JSON_stringify_string :: "string \<Rightarrow> string" where
  "JSON_stringify_string s = [CHR 0x22] @ concat (map JSON_quote_char s) @ [CHR 0x22]"

definition JSON_stringify_strings :: "string list \<Rightarrow> string" where
  "JSON_stringify_strings xs = ''['' @ join '','' (map JSON_stringify_string xs) @ '']''"

text \<open>A number in a template literal (integers only).\<close>

function show_nat :: "nat \<Rightarrow> string" where
  "show_nat n = (if n < 10 then [char_of (48 + n)] else show_nat (n div 10) @ [char_of (48 + n mod 10)])"
  by pat_completeness auto
termination
  by (relation "measure id") auto

definition show_int :: "int \<Rightarrow> string" where
  "show_int i = (if i < 0 then CHR ''-'' # show_nat (nat (- i)) else show_nat (nat i))"

text \<open>
  \<open>s.replace(/<[^>]*>/g, " ")\<close>: a \<open><\<close> that some \<open>>\<close> follows is replaced, together with
  everything up to the first such \<open>>\<close>, by one space.
\<close>

function replace_tags :: "string \<Rightarrow> string" where
  "replace_tags [] = []"
| "replace_tags (c # cs) =
     (if c = CHR ''<'' \<and> CHR ''>'' \<in> set cs
      then CHR '' '' # replace_tags (tl (dropWhile (\<lambda>x. x \<noteq> CHR ''>'') cs))
      else c # replace_tags cs)"
  by pat_completeness auto
termination
proof (relation "measure length")
  fix c :: char and cs :: string
  have "length (tl (dropWhile (\<lambda>x. x \<noteq> CHR ''>'') cs)) \<le> length cs"
    using length_dropWhile_le [of "\<lambda>x. x \<noteq> CHR ''>''" cs] by simp
  then show "(tl (dropWhile (\<lambda>x. x \<noteq> CHR ''>'') cs), c # cs) \<in> measure length" by simp
qed auto

text \<open>\<open>s.replace(/pat/g, rep)\<close> for a literal, non-empty pattern.\<close>

function replaceAll :: "string \<Rightarrow> string \<Rightarrow> string \<Rightarrow> string" where
  "replaceAll pat rep [] = []"
| "replaceAll pat rep (c # cs) =
     (if pat \<noteq> [] \<and> take (length pat) (c # cs) = pat
      then rep @ replaceAll pat rep (drop (length pat) (c # cs))
      else c # replaceAll pat rep cs)"
  by pat_completeness auto
termination
  by (relation "measure (\<lambda>(pat, rep, s). length s)") auto

definition stripHtml :: "string option \<Rightarrow> string" where
  "stripHtml html =
     (case html of
        None \<Rightarrow> []
      | Some h \<Rightarrow>
          if h = [] then []
          else trim (collapse_ws
                 (replaceAll ''&#x2F;'' ''/''
                 (replaceAll ''&#x27;'' [CHR 0x27]
                 (replaceAll ''&quot;'' [CHR 0x22]
                 (replaceAll ''&gt;'' ''>''
                 (replaceAll ''&lt;'' ''<''
                 (replaceAll ''&amp;'' ''&''
                 (replace_tags h)))))))))"

subsection \<open>Configuration, worker state and the world\<close>

text \<open>The constants read from the environment at start-up (integers).\<close>

record config =
  MAX_AGE_HOURS :: int
  MAX_STORIES :: int
  MAX_COMMENTS_PER_STORY :: int
  NEW_COMMENTS_BATCH :: int
  LLM_DELAY_MS :: int

record cycle_result =
  r_ingested :: nat
  r_skipped :: nat
  r_tooOld :: nat
  r_errors :: nat
  r_commentsProcessed :: nat
  r_newComments :: nat

record workerState =
  running :: bool
  lastRunAt :: "int option"
  lastRunResult :: "cycle_result option"
  totalProcessed :: nat
  totalEmbedded :: nat
  currentlyProcessing :: "string option"
  cycleStartedAt :: "int option"
  cycleTotal :: nat
  cycleCurrent :: nat
  cyclePhase :: "string option"
  errors :: "string list"

text \<open>
  The metadata objects that the service hands to the vector index with an embedding.
  \<open>sm_concepts\<close> and \<open>cm_concepts\<close> hold the text made by \<open>JSON.stringify\<close>.
\<close>

record StoryMeta =
  sm_hnId :: int
  sm_title :: string
  sm_coreIdea :: string
  sm_sentiment :: string
  sm_controversyPotential :: string
  sm_intellectualDepth :: string
  sm_concepts :: string
  sm_time :: int
  sm_score :: int

record CommentMeta =
  cm_hnId :: int
  cm_storyHnId :: int
  cm_by :: string
  cm_commentType :: string
  cm_sentiment :: string
  cm_concepts :: string
  cm_time :: int

text \<open>
  The mutable state the service works on: the two tables, the two collections of the
  vector index (chroma.ts; the entries by identifier, each an embedding with its
  metadata) and \<open>workerState\<close>.
\<close>

record world =
  stories :: "Story list"
  comments :: "Comment list"
  storyCollection :: "(string \<times> real list \<times> StoryMeta) list"
  commentCollection :: "(string \<times> real list \<times> CommentMeta) list"
  worker :: workerState

text \<open>
  The calls to the database, by table and key; \<open>dbFault\<close> below says which of them fail for
  a reason other than the unique index.
\<close>

datatype db_op =
    StoryFindOne int
  | StoryFindAll
  | StoryCreate int
  | StoryUpdate int
  | CommentFindOne int
  | CommentFindAll
  | CommentCreate int
  | CommentUpdate int

text \<open>
  What the service does not control: the configuration, the clock (\<open>clock id\<close> is the
  value of \<open>Date.now()\<close>, in milliseconds, while the item \<open>id\<close> is handled), the outcomes
  of the upstream client (\<open>hn.fetchItem\<close> catches every error and returns null) and of
  the analysis client, the faults of the vector index (\<open>addStoryEmbedding e id\<close> is the
  error with which the call for \<open>id\<close> fails, if it does) and the faults of the database.
\<close>

record env =
  cfg :: config
  clock :: "int \<Rightarrow> int"
  fetchTopStoryIds :: "error + int list"
  fetchNewStoryIds :: "error + int list"
  fetchItem :: "int \<Rightarrow> HNItem option"
  analyzeStory :: "string \<Rightarrow> string \<Rightarrow> string option \<Rightarrow> error + StoryAnalysis"
  analyzeComment :: "string \<Rightarrow> string \<Rightarrow> string option \<Rightarrow> error + CommentAnalysis"
  generateEmbedding :: "string \<Rightarrow> error + real list"
  addStoryEmbedding :: "int \<Rightarrow> error option"
  addCommentEmbedding :: "int \<Rightarrow> error option"
  dbFault :: "db_op \<Rightarrow> error option"

definition Story_create :: "env \<Rightarrow> Story \<Rightarrow> Story list \<Rightarrow> error + (nat \<times> Story list)" where
  "Story_create e row tbl =
     (if s_hnId row \<in> set (map s_hnId tbl) then Inl UniqueConstraintError
      else case dbFault e (StoryCreate (s_hnId row)) of
             Some err \<Rightarrow> Inl err
           | None \<Rightarrow> Inr (length tbl, tbl @ [row]))"

definition Comment_create :: "env \<Rightarrow> Comment \<Rightarrow> Comment list \<Rightarrow> error + (nat \<times> Comment list)" where
  "Comment_create e row tbl =
     (if c_hnId row \<in> set (map c_hnId tbl) then Inl UniqueConstraintError
      else case dbFault e (CommentCreate (c_hnId row)) of
             Some err \<Rightarrow> Inl err
           | None \<Rightarrow> Inr (length tbl, tbl @ [row]))"

definition isRecent :: "config \<Rightarrow> int \<Rightarrow> int \<Rightarrow> bool" where
  "isRecent c now unixTime = (now - unixTime * 1000 \<le> MAX_AGE_HOURS c * 60 * 60 * 1000)"

text \<open>\<open>workerState.errors.push(msg); if (workerState.errors.length > 50) workerState.errors.shift()\<close>\<close>

definition pushError :: "string \<Rightarrow> workerState \<Rightarrow> workerState" where
  "pushError msg st =
     (let es = errors st @ [msg]
      in st\<lparr>errors := (if length es > 50 then tl es else es)\<rparr>)"


subsection \<open>chroma.ts: the vector index\<close>

text \<open>\<open>collection.upsert\<close> of one entry: the entry of that identifier is replaced, or added.\<close>

fun upsert :: "'k \<Rightarrow> 'v \<Rightarrow> ('k \<times> 'v) list \<Rightarrow> ('k \<times> 'v) list" where
  "upsert k v [] = [(k, v)]"
| "upsert k v (kv # kvs) = (if fst kv = k then (k, v) # kvs else kv # upsert k v kvs)"

text \<open>
  The effect of a call of \<open>addStoryEmbedding\<close> and of \<open>addCommentEmbedding\<close> that does not
  fail.
\<close>

definition storyUpsert :: "int \<Rightarrow> real list \<Rightarrow> StoryMeta \<Rightarrow> world \<Rightarrow> world" where
  "storyUpsert hnId embedding metadata w =
     w\<lparr>storyCollection :=
          upsert (''story_'' @ show_int hnId) (embedding, metadata) (storyCollection w)\<rparr>"

definition commentUpsert :: "int \<Rightarrow> real list \<Rightarrow> CommentMeta \<Rightarrow> world \<Rightarrow> world" where
  "commentUpsert hnId embedding metadata w =
     w\<lparr>commentCollection :=
          upsert (''comment_'' @ show_int hnId) (embedding, metadata) (commentCollection w)\<rparr>"

subsection \<open>processStoryOnly\<close>

datatype story_result = New | Cached | TooOld | ErrorResult

text \<open>The row given to \<open>Story.create\<close>; the analysis columns take their defaults.\<close>

definition newStory :: "HNItem \<Rightarrow> Story" where
  "newStory item = \<lparr>
     s_hnId = i_id item,
     s_title = str_or (i_title item) [],
     s_url = str_or_null (i_url item),
     s_text = str_or_null (i_text item),
     s_by = str_or (i_by item) ''unknown'',
     s_score = num_or (i_score item) 0,
     s_time = i_time item,
     s_descendants = num_or (i_descendants item) 0,
     s_coreIdea = None, s_concepts = None, s_technologies = None, s_entities = None,
     s_communityAngle = None, s_sentiment = None, s_sentimentScore = None,
     s_controversyPotential = None, s_intellectualDepth = None,
     s_analysisVersion = None, s_embedded = False, s_processedAt = None\<rparr>"

text \<open>The object given to \<open>story.update\<close> after a successful analysis of a new story.\<close>

definition storyAnalysisPatch :: "StoryAnalysis \<Rightarrow> string list \<Rightarrow> int \<Rightarrow> StoryPatch" where
  "storyAnalysisPatch analysis concepts now = \<lparr>
     sp_score = None, sp_descendants = None,
     sp_coreIdea = Some (or_str (sa_core_idea analysis) []),
     sp_concepts = Some concepts,
     sp_technologies = Some (sa_technologies analysis),
     sp_entities = Some (sa_entities analysis),
     sp_communityAngle = Some (or_str (sa_community_angle analysis) []),
     sp_sentiment = Some (sa_sentiment analysis),
     sp_sentimentScore = Some (sa_sentiment_score analysis),
     sp_controversyPotential = Some (sa_controversy_potential analysis),
     sp_intellectualDepth = Some (sa_intellectual_depth analysis),
     sp_analysisVersion = Some ANALYSIS_VERSION,
     sp_embedded = Some True,
     sp_processedAt = Some now\<rparr>"

text \<open>The object given to \<open>existing.update\<close> for a story that is already stored.\<close>

definition storyRefreshPatch :: "HNItem \<Rightarrow> Story \<Rightarrow> StoryPatch" where
  "storyRefreshPatch item existing = \<lparr>
     sp_score = Some (num_or (i_score item) (s_score existing)),
     sp_descendants = Some (num_or (i_descendants item) (s_descendants existing)),
     sp_coreIdea = None, sp_concepts = None, sp_technologies = None, sp_entities = None,
     sp_communityAngle = None, sp_sentiment = None, sp_sentimentScore = None,
     sp_controversyPotential = None, sp_intellectualDepth = None,
     sp_analysisVersion = None, sp_embedded = None, sp_processedAt = None\<rparr>"

definition bumpEmbedded :: "world \<Rightarrow> world" where
  "bumpEmbedded w = w\<lparr>worker := (worker w)\<lparr>totalEmbedded := totalEmbedded (worker w) + 1\<rparr>\<rparr>"

definition bumpProcessed :: "world \<Rightarrow> world" where
  "bumpProcessed w = w\<lparr>worker := (worker w)\<lparr>totalProcessed := totalProcessed (worker w) + 1\<rparr>\<rparr>"

text \<open>
  The metadata given to the vector index for a new story: \<open>concepts\<close> is
  \<open>JSON.stringify(analysis.concepts)\<close>, the list as the analysis returned it.
\<close>

definition newStoryMeta :: "HNItem \<Rightarrow> StoryAnalysis \<Rightarrow> StoryMeta" where
  "newStoryMeta item analysis = \<lparr>
     sm_hnId = i_id item,
     sm_title = str_or (i_title item) [],
     sm_coreIdea = sa_core_idea analysis,
     sm_sentiment = sa_sentiment analysis,
     sm_controversyPotential = sa_controversy_potential analysis,
     sm_intellectualDepth = sa_intellectual_depth analysis,
     sm_concepts = JSON_stringify_strings (sa_concepts analysis),
     sm_time = i_time item,
     sm_score = num_or (i_score item) 0\<rparr>"

text \<open>
  The body of the \<open>try\<close> block of \<open>processStoryOnly\<close>: analysis, normalisation, embedding,
  the update of the row at position \<open>row\<close>, the vector index, the counter.  \<open>Some err\<close> is
  the error thrown, with the world as it is at the throw.
\<close>

definition analyzeNewStory :: "env \<Rightarrow> HNItem \<Rightarrow> nat \<Rightarrow> string \<Rightarrow> world \<Rightarrow> error option \<times> world" where
  "analyzeNewStory e item row rawText w =
     (case analyzeStory e (str_or (i_title item) []) rawText (str_or_null (i_url item)) of
        Inl err \<Rightarrow> (Some err, w)
      | Inr analysis \<Rightarrow>
          let concepts = normalizeConcepts (sa_concepts analysis);
              entities = sa_entities analysis;
              embeddingText = or_str (sa_core_idea analysis) [] @ ''. Concepts: ''
                @ join '', '' concepts @ ''. '' @ or_str (sa_community_angle analysis) []
                @ ''. Entities: '' @ join '', '' entities
          in (case generateEmbedding e embeddingText of
                Inl err \<Rightarrow> (Some err, w)
              | Inr embedding \<Rightarrow>
                  (case dbFault e (StoryUpdate (i_id item)) of
                     Some err \<Rightarrow> (Some err, w)
                   | None \<Rightarrow>
                       (let w1 = w\<lparr>stories := (stories w)
                                   [row := Story_update
                                      (storyAnalysisPatch analysis concepts (clock e (i_id item)))
                                      (stories w ! row)]\<rparr>
                        in (case addStoryEmbedding e (i_id item) of
                              Some err \<Rightarrow> (Some err, w1)
                            | None \<Rightarrow>
                                (None, bumpEmbedded
                                   (storyUpsert (i_id item) embedding
                                      (newStoryMeta item analysis) w1)))))))"

text \<open>The branch \<open>if (!existing) { ... }\<close> of \<open>processStoryOnly\<close>.\<close>

definition storyLabel :: "HNItem \<Rightarrow> int \<Rightarrow> string" where
  "storyLabel item hnId = str_or (i_title item) (''story '' @ show_int hnId)"

definition textForAnalysis :: "HNItem \<Rightarrow> string" where
  "textForAnalysis item = trim (str_or (i_title item) [] @ '' '' @ stripHtml (i_text item))"

text \<open>The entry pushed on \<open>workerState.errors\<close> by the \<open>catch\<close> block.\<close>

definition storyErrorEntry :: "int \<Rightarrow> error \<Rightarrow> string" where
  "storyErrorEntry hnId err =
     ''story '' @ show_int hnId @ '': '' @ or_str (err_message err) ''unknown''"

text \<open>The \<open>try\<close> statement with its \<open>catch\<close> block: no error leaves it.\<close>

definition tryAnalyzeStory :: "env \<Rightarrow> int \<Rightarrow> HNItem \<Rightarrow> nat \<Rightarrow> world \<Rightarrow> world" where
  "tryAnalyzeStory e hnId item row w =
     (case analyzeNewStory e item row (stripHtml (i_text item)) w of
        (None, w1) \<Rightarrow> w1
      | (Some err, w1) \<Rightarrow> w1\<lparr>worker := pushError (storyErrorEntry hnId err) (worker w1)\<rparr>)"

definition createAndAnalyze ::
  "env \<Rightarrow> int \<Rightarrow> HNItem \<Rightarrow> world \<Rightarrow> (error + story_result \<times> HNItem option) \<times> world" where
  "createAndAnalyze e hnId item w =
     (let w1 = w\<lparr>worker := (worker w)\<lparr>currentlyProcessing := Some (storyLabel item hnId)\<rparr>\<rparr>
      in (case Story_create e (newStory item) (stories w1) of
            Inl err \<Rightarrow> (Inl err, w1)
          | Inr (row, tbl) \<Rightarrow>
              (let w2 = w1\<lparr>stories := tbl\<rparr>;
                   w3 = (if length (textForAnalysis item) > 0
                         then tryAnalyzeStory e hnId item row w2
                         else w2)
               in (Inr (New, Some item), bumpProcessed w3))))"

definition processStoryOnly ::
  "env \<Rightarrow> int \<Rightarrow> world \<Rightarrow> (error + story_result \<times> HNItem option) \<times> world" where
  "processStoryOnly e hnId w =
     (case dbFault e (StoryFindOne hnId) of
        Some err \<Rightarrow> (Inl err, w)
      | None \<Rightarrow>
          (let existing = find_row (\<lambda>r. s_hnId r = hnId) (stories w) in
           (case fetchItem e hnId of
              None \<Rightarrow> (Inr (if existing \<noteq> None then Cached else ErrorResult, None), w)
            | Some item \<Rightarrow>
                if i_type item \<noteq> ''story''
                then (Inr (if existing \<noteq> None then Cached else ErrorResult, None), w)
                else if \<not> isRecent (cfg e) (clock e hnId) (i_time item)
                then (Inr (TooOld, Some item), w)
                else
                  (case existing of
                     None \<Rightarrow> createAndAnalyze e hnId item w
                   | Some i \<Rightarrow>
                       (case dbFault e (StoryUpdate hnId) of
                          Some err \<Rightarrow> (Inl err, w)
                        | None \<Rightarrow>
                            (Inr (Cached, Some item),
                             w\<lparr>stories := (stories w)
                                  [i := Story_update (storyRefreshPatch item (stories w ! i))
                                          (stories w ! i)]\<rparr>))))))"

subsection \<open>processComment\<close>

definition newComment :: "HNItem \<Rightarrow> int \<Rightarrow> Comment" where
  "newComment ci storyHnId = \<lparr>
     c_hnId = i_id ci,
     c_storyHnId = storyHnId,
     c_parentHnId = (case i_parent ci of None \<Rightarrow> None | Some p \<Rightarrow> if p = 0 then None else Some p),
     c_text = str_or_null (i_text ci),
     c_by = str_or_null (i_by ci),
     c_time = i_time ci,
     c_argumentSummary = None, c_concepts = None, c_technologies = None, c_entities = None,
     c_commentType = None, c_sentiment = None, c_sentimentScore = None,
     c_analysisVersion = None, c_embedded = False, c_processedAt = None\<rparr>"

definition commentAnalysisPatch :: "CommentAnalysis \<Rightarrow> string list \<Rightarrow> int \<Rightarrow> CommentPatch" where
  "commentAnalysisPatch analysis concepts now = \<lparr>
     cp_argumentSummary = Some (or_str (ca_argument_summary analysis) []),
     cp_concepts = Some concepts,
     cp_technologies = Some (ca_technologies analysis),
     cp_entities = Some (ca_entities analysis),
     cp_commentType = Some (or_str (ca_comment_type analysis) ''meta_commentary''),
     cp_sentiment = Some (ca_sentiment analysis),
     cp_sentimentScore = Some (ca_sentiment_score analysis),
     cp_analysisVersion = Some ANALYSIS_VERSION,
     cp_embedded = Some True,
     cp_processedAt = Some now\<rparr>"

text \<open>
  The metadata given to the vector index for a new comment: \<open>concepts\<close> is
  \<open>JSON.stringify(concepts)\<close>, the normalised list.
\<close>

definition newCommentMeta :: "HNItem \<Rightarrow> int \<Rightarrow> CommentAnalysis \<Rightarrow> string list \<Rightarrow> CommentMeta" where
  "newCommentMeta ci storyHnId analysis concepts = \<lparr>
     cm_hnId = i_id ci,
     cm_storyHnId = storyHnId,
     cm_by = str_or (i_by ci) ''unknown'',
     cm_commentType = or_str (ca_comment_type analysis) ''meta_commentary'',
     cm_sentiment = ca_sentiment analysis,
     cm_concepts = JSON_stringify_strings concepts,
     cm_time = i_time ci\<rparr>"

text \<open>The body of the inner \<open>try\<close> block of \<open>processComment\<close>, up to \<open>return true\<close>.\<close>

definition analyzeNewComment ::
  "env \<Rightarrow> HNItem \<Rightarrow> int \<Rightarrow> string \<Rightarrow> string option \<Rightarrow> nat \<Rightarrow> string \<Rightarrow> world
     \<Rightarrow> error option \<times> world" where
  "analyzeNewComment e ci storyHnId storyTitle parentContext row commentText w =
     (case analyzeComment e commentText storyTitle parentContext of
        Inl err \<Rightarrow> (Some err, w)
      | Inr analysis \<Rightarrow>
          let concepts = normalizeConcepts (ca_concepts analysis);
              embeddingText = or_str (ca_argument_summary analysis) [] @ ''. Concepts: ''
                @ join '', '' concepts
          in (case generateEmbedding e embeddingText of
                Inl err \<Rightarrow> (Some err, w)
              | Inr embedding \<Rightarrow>
                  (case dbFault e (CommentUpdate (i_id ci)) of
                     Some err \<Rightarrow> (Some err, w)
                   | None \<Rightarrow>
                       (let w1 = w\<lparr>comments := (comments w)
                                   [row := Comment_update
                                      (commentAnalysisPatch analysis concepts (clock e (i_id ci)))
                                      (comments w ! row)]\<rparr>
                        in (case addCommentEmbedding e (i_id ci) of
                              Some err \<Rightarrow> (Some err, w1)
                            | None \<Rightarrow>
                                (None, bumpEmbedded
                                   (commentUpsert (i_id ci) embedding
                                      (newCommentMeta ci storyHnId analysis concepts) w1)))))))"

definition processComment ::
  "env \<Rightarrow> HNItem \<Rightarrow> int \<Rightarrow> string \<Rightarrow> string option \<Rightarrow> world \<Rightarrow> bool \<times> world" where
  "processComment e ci storyHnId storyTitle parentContext w =
     (case Comment_create e (newComment ci storyHnId) (comments w) of
        Inl err \<Rightarrow>
          if err_name err = ''SequelizeUniqueConstraintError'' then (False, w)
          else (False, w)
      | Inr (row, tbl) \<Rightarrow>
          (let w1 = w\<lparr>comments := tbl\<rparr>;
               commentText = stripHtml (i_text ci)
           in if length commentText > 30
              then (case analyzeNewComment e ci storyHnId storyTitle parentContext row commentText
                           w1 of
                      (None, w') \<Rightarrow> (True, w')
                    | (Some err, w') \<Rightarrow> (False, w'))
              else (False, w1)))"

subsection \<open>processStoryComments\<close>

text \<open>\<open>parentSummaryMap\<close> is an association list; \<open>set\<close> puts the new entry in front.\<close>

definition summary_set :: "int \<Rightarrow> string option \<Rightarrow> (int \<times> string) list \<Rightarrow> (int \<times> string) list" where
  "summary_set k v m = (case v of None \<Rightarrow> m | Some s \<Rightarrow> if s = [] then m else (k, s) # m)"

text \<open>
  After a comment was processed: \<open>Comment.findOne\<close> reads its row back, and a non-empty
  \<open>argumentSummary\<close> is entered in the map.
\<close>

definition learnSummary :: "int \<Rightarrow> Comment list \<Rightarrow> (int \<times> string) list \<Rightarrow> (int \<times> string) list" where
  "learnSummary hnId tbl m =
     (case find_row (\<lambda>r. c_hnId r = hnId) tbl of
        None \<Rightarrow> m
      | Some k \<Rightarrow> summary_set hnId (c_argumentSummary (tbl ! k)) m)"

text \<open>\<open>NEW_COMMENTS_BATCH > 0 && newComments >= NEW_COMMENTS_BATCH\<close>\<close>

definition batchLimitReached :: "config \<Rightarrow> nat \<Rightarrow> bool" where
  "batchLimitReached c newComments =
     (NEW_COMMENTS_BATCH c > 0 \<and> int newComments \<ge> NEW_COMMENTS_BATCH c)"

text \<open>
  The \<open>for\<close> loop over \<open>toProcess\<close>, with the local counters and the map as arguments.
  It ends at the end of the list or at the \<open>break\<close>; the error is that of
  \<open>Comment.findOne\<close>.
\<close>

fun commentsLoop ::
  "env \<Rightarrow> HNItem \<Rightarrow> int list \<Rightarrow> HNItem list \<Rightarrow> nat \<Rightarrow> nat \<Rightarrow> (int \<times> string) list \<Rightarrow> world
   \<Rightarrow> (error + nat \<times> nat) \<times> world" where
  "commentsLoop e item existingSet [] commentsProcessed newComments m w =
     (Inr (commentsProcessed, newComments), w)"
| "commentsLoop e item existingSet (ci # rest) commentsProcessed newComments m w =
     (if i_id ci \<in> set existingSet
      then commentsLoop e item existingSet rest (commentsProcessed + 1) newComments m w
      else if batchLimitReached (cfg e) newComments
      then (Inr (commentsProcessed, newComments), w)
      else
        (let parentContext = (case i_parent ci of
                                None \<Rightarrow> None
                              | Some p \<Rightarrow> if p = 0 then None else map_of m p)
         in (case processComment e ci (i_id item) (str_or (i_title item) []) parentContext w of
               (True, w1) \<Rightarrow>
                 (case dbFault e (CommentFindOne (i_id ci)) of
                    Some err \<Rightarrow> (Inl err, w1)
                  | None \<Rightarrow>
                      commentsLoop e item existingSet rest (commentsProcessed + 1)
                        (newComments + 1) (learnSummary (i_id ci) (comments w1) m) w1)
             | (False, w1) \<Rightarrow>
                 commentsLoop e item existingSet rest (commentsProcessed + 1) newComments m w1)))"

definition validComment :: "HNItem option \<Rightarrow> bool" where
  "validComment c =
     (case c of
        None \<Rightarrow> False
      | Some ci \<Rightarrow> i_type ci = ''comment'' \<and> \<not> flag (i_deleted ci) \<and> \<not> flag (i_dead ci))"

definition processStoryComments :: "env \<Rightarrow> HNItem \<Rightarrow> world \<Rightarrow> (error + nat \<times> nat) \<times> world" where
  "processStoryComments e item w =
     (case i_kids item of
        None \<Rightarrow> (Inr (0, 0), w)
      | Some kids \<Rightarrow>
          if kids = [] then (Inr (0, 0), w)
          else
            (let topLevelItems = map (fetchItem e) kids;
                 validComments = map the (filter validComment topLevelItems);
                 toProcess = (if MAX_COMMENTS_PER_STORY (cfg e) > 0
                              then take (nat (MAX_COMMENTS_PER_STORY (cfg e))) validComments
                              else validComments);
                 existingCommentIds = map i_id toProcess
             in (case dbFault e CommentFindAll of
                   Some err \<Rightarrow> (Inl err, w)
                 | None \<Rightarrow>
                     (let existingComments =
                            filter (\<lambda>c. c_hnId c \<in> set existingCommentIds) (comments w);
                          m = fold (\<lambda>ec m. summary_set (c_hnId ec) (c_argumentSummary ec) m)
                                existingComments [];
                          existingSet = map c_hnId existingComments
                      in commentsLoop e item existingSet toProcess 0 0 m w))))"

subsection \<open>runIngestionCycle\<close>

text \<open>\<open>[...new Set(ids)]\<close>: the first occurrence of each identifier, in order.\<close>

definition uniqueIds :: "int list \<Rightarrow> int list" where
  "uniqueIds ids = rev (remdups (rev ids))"

definition count_result :: "story_result \<Rightarrow> cycle_result \<Rightarrow> cycle_result" where
  "count_result result r =
     (case result of
        New \<Rightarrow> r\<lparr>r_ingested := r_ingested r + 1\<rparr>
      | Cached \<Rightarrow> r\<lparr>r_skipped := r_skipped r + 1\<rparr>
      | TooOld \<Rightarrow> r\<lparr>r_tooOld := r_tooOld r + 1\<rparr>
      | ErrorResult \<Rightarrow> r\<lparr>r_errors := r_errors r + 1\<rparr>)"

text \<open>
  The comments of a story, inside its turn: the inner \<open>try\<close> block of the loop.  An error
  thrown by \<open>processStoryComments\<close> is caught here and its counts are lost.
\<close>

definition commentsOfStory :: "env \<Rightarrow> HNItem \<Rightarrow> cycle_result \<Rightarrow> world \<Rightarrow> cycle_result \<times> world" where
  "commentsOfStory e it r w =
     (let w1 = w\<lparr>worker := (worker w)\<lparr>currentlyProcessing :=
                 Some (''comments for: '' @ storyLabel it (i_id it))\<rparr>\<rparr>
      in (case processStoryComments e it w1 of
            (Inr (commentsProcessed, newComments), w2) \<Rightarrow>
              (r\<lparr>r_commentsProcessed := r_commentsProcessed r + commentsProcessed,
                 r_newComments := r_newComments r + newComments\<rparr>, w2)
          | (Inl err, w2) \<Rightarrow> (r, w2)))"

text \<open>One iteration of the loop over the candidates: the turn of \<open>hnId\<close>.\<close>

definition candidateTurn :: "env \<Rightarrow> int \<Rightarrow> cycle_result \<Rightarrow> world \<Rightarrow> cycle_result \<times> world" where
  "candidateTurn e hnId r w =
     (let w1 = w\<lparr>worker := (worker w)\<lparr>cycleCurrent := cycleCurrent (worker w) + 1\<rparr>\<rparr>
      in (case processStoryOnly e hnId w1 of
            (Inl err, w2) \<Rightarrow> (r\<lparr>r_errors := r_errors r + 1\<rparr>, bumpProcessed w2)
          | (Inr (result, item), w2) \<Rightarrow>
              (let r1 = count_result result r;
                   w3 = bumpProcessed w2
               in (case item of
                     None \<Rightarrow> (r1, w3)
                   | Some it \<Rightarrow>
                       if result = New \<or> result = Cached
                       then commentsOfStory e it r1 w3
                       else (r1, w3)))))"

fun storiesLoop :: "env \<Rightarrow> int list \<Rightarrow> cycle_result \<Rightarrow> world \<Rightarrow> cycle_result \<times> world" where
  "storiesLoop e [] r w = (r, w)"
| "storiesLoop e (hnId # rest) r w =
     (case candidateTurn e hnId r w of (r1, w1) \<Rightarrow> storiesLoop e rest r1 w1)"

definition no_result :: cycle_result where
  "no_result = \<lparr>r_ingested = 0, r_skipped = 0, r_tooOld = 0, r_errors = 0,
                 r_commentsProcessed = 0, r_newComments = 0\<rparr>"

text \<open>The candidates of a cycle, from the two listings.\<close>

definition candidates :: "env \<Rightarrow> int list \<Rightarrow> int list \<Rightarrow> int list" where
  "candidates e topIds newIds =
     (if MAX_STORIES (cfg e) > 0
      then take (nat (MAX_STORIES (cfg e))) (uniqueIds (topIds @ newIds))
      else uniqueIds (topIds @ newIds))"

definition runIngestionCycle :: "env \<Rightarrow> world \<Rightarrow> (error + cycle_result) \<times> world" where
  "runIngestionCycle e w =
     (case fetchTopStoryIds e of
        Inl err \<Rightarrow> (Inl err, w)
      | Inr topIds \<Rightarrow>
          (case fetchNewStoryIds e of
             Inl err \<Rightarrow> (Inl err, w)
           | Inr newIds \<Rightarrow>
               (let toProcess = candidates e topIds newIds;
                    w0 = w\<lparr>worker := (worker w)\<lparr>cycleTotal := length toProcess, cycleCurrent := 0,
                                               cyclePhase := Some ''stories+comments''\<rparr>\<rparr>
                in (case storiesLoop e toProcess no_result w0 of
                      (r, w1) \<Rightarrow> (Inr r, w1)))))"


subsection \<open>runRegeneration\<close>

text \<open>
  The options of a regeneration run.  \<open>o_since\<close> and \<open>o_until\<close> hold the epoch seconds
  that the source computes from the date strings (\<open>None\<close> when the string is absent or
  empty).
\<close>

record regen_options =
  o_targetVersion :: "string option"
  o_maxItems :: "nat option"
  o_type :: "string option"
  o_since :: "int option"
  o_until :: "int option"

record regen_summary =
  g_storiesRegenerated :: nat
  g_commentsRegenerated :: nat
  g_errors :: "string list"

definition versionFilter :: "regen_options \<Rightarrow> string" where
  "versionFilter opts = str_or (o_targetVersion opts) ANALYSIS_VERSION"

text \<open>
  The object \<open>timeFilters\<close>.  The source stores the two bounds under the symbols \<open>Op.gte\<close>
  and \<open>Op.lte\<close>, so the object has properties with symbol keys and none with a string
  key.
\<close>

datatype op_symbol = Op_gte | Op_lte

record time_filters =
  string_keyed :: "(string \<times> int) list"
  symbol_keyed :: "(op_symbol \<times> int) list"

definition timeFilters :: "regen_options \<Rightarrow> time_filters" where
  "timeFilters opts = \<lparr>
     string_keyed = [],
     symbol_keyed = (case o_since opts of None \<Rightarrow> [] | Some lo \<Rightarrow> [(Op_gte, lo)])
                    @ (case o_until opts of None \<Rightarrow> [] | Some hi \<Rightarrow> [(Op_lte, hi)])\<rparr>"

text \<open>\<open>Object.keys\<close> lists the properties with a string key; it does not see a symbol.\<close>

definition Object_keys :: "time_filters \<Rightarrow> string list" where
  "Object_keys obj = map fst (string_keyed obj)"

text \<open>
  \<open>timeWhere = Object.keys(timeFilters).length > 0 ? { time: timeFilters } : {}\<close>:
  \<open>Some f\<close> is the object with the condition \<open>f\<close> on \<open>time\<close>, \<open>None\<close> the empty object.
\<close>

definition timeWhere :: "regen_options \<Rightarrow> time_filters option" where
  "timeWhere opts =
     (if length (Object_keys (timeFilters opts)) > 0 then Some (timeFilters opts) else None)"

text \<open>
  What \<open>...timeWhere\<close> adds to a \<open>where\<close> clause, as a condition on the \<open>time\<close> of a
  row: nothing for the empty object, otherwise every comparison of the filter.
\<close>

definition timeCondition :: "time_filters option \<Rightarrow> int \<Rightarrow> bool" where
  "timeCondition tw t =
     (case tw of
        None \<Rightarrow> True
      | Some f \<Rightarrow>
          list_all (\<lambda>(op, bound). (case op of Op_gte \<Rightarrow> bound \<le> t | Op_lte \<Rightarrow> t \<le> bound))
            (symbol_keyed f))"

text \<open>
  The version condition of the \<open>where\<close> clause,
  \<open>[Op.or]: [{ analysisVersion: { [Op.ne]: v } }, { analysisVersion: null }]\<close>: in SQL the
  comparison with \<open><>\<close> is not true of a null, hence the second disjunct.
\<close>

definition staleVersion :: "string \<Rightarrow> string option \<Rightarrow> bool" where
  "staleVersion v av = ((case av of None \<Rightarrow> False | Some a \<Rightarrow> a \<noteq> v) \<or> av = None)"

text \<open>
  \<open>Story.findAll\<close> and \<open>Comment.findAll\<close> of the regeneration: the rows that are embedded,
  stale and satisfy what \<open>timeWhere\<close> adds to the clause, by descending \<open>time\<close> (rows of
  equal time in table order), at most \<open>limit\<close> of them.  Each instance is its position
  and the row as read.
\<close>

definition storiesToRegen :: "regen_options \<Rightarrow> Story list \<Rightarrow> (nat \<times> Story) list" where
  "storiesToRegen opts tbl =
     take (case o_maxItems opts of None \<Rightarrow> 50 | Some n \<Rightarrow> n)
       (sort_key (\<lambda>(k, s). - s_time s)
          (filter (\<lambda>(k, s). s_embedded s \<and> staleVersion (versionFilter opts) (s_analysisVersion s)
                            \<and> timeCondition (timeWhere opts) (s_time s))
             (enumerate 0 tbl)))"

definition commentsToRegen :: "regen_options \<Rightarrow> Comment list \<Rightarrow> (nat \<times> Comment) list" where
  "commentsToRegen opts tbl =
     take (case o_maxItems opts of None \<Rightarrow> 50 | Some n \<Rightarrow> n)
       (sort_key (\<lambda>(k, c). - c_time c)
          (filter (\<lambda>(k, c). c_embedded c \<and> staleVersion (versionFilter opts) (c_analysisVersion c)
                            \<and> timeCondition (timeWhere opts) (c_time c))
             (enumerate 0 tbl)))"

text \<open>The objects given to \<open>update\<close> by the regeneration: there is no key \<open>embedded\<close>.\<close>

definition storyRegenPatch :: "StoryAnalysis \<Rightarrow> string list \<Rightarrow> string \<Rightarrow> int \<Rightarrow> StoryPatch" where
  "storyRegenPatch analysis concepts version now = \<lparr>
     sp_score = None, sp_descendants = None,
     sp_coreIdea = Some (sa_core_idea analysis),
     sp_concepts = Some concepts,
     sp_technologies = Some (sa_technologies analysis),
     sp_entities = Some (sa_entities analysis),
     sp_communityAngle = Some (sa_community_angle analysis),
     sp_sentiment = Some (sa_sentiment analysis),
     sp_sentimentScore = Some (sa_sentiment_score analysis),
     sp_controversyPotential = Some (sa_controversy_potential analysis),
     sp_intellectualDepth = Some (sa_intellectual_depth analysis),
     sp_analysisVersion = Some version,
     sp_embedded = None,
     sp_processedAt = Some now\<rparr>"

definition commentRegenPatch :: "CommentAnalysis \<Rightarrow> string list \<Rightarrow> string \<Rightarrow> int \<Rightarrow> CommentPatch" where
  "commentRegenPatch analysis concepts version now = \<lparr>
     cp_argumentSummary = Some (ca_argument_summary analysis),
     cp_concepts = Some concepts,
     cp_technologies = Some (ca_technologies analysis),
     cp_entities = Some (ca_entities analysis),
     cp_commentType = Some (ca_comment_type analysis),
     cp_sentiment = Some (ca_sentiment analysis),
     cp_sentimentScore = Some (ca_sentiment_score analysis),
     cp_analysisVersion = Some version,
     cp_embedded = None,
     cp_processedAt = Some now\<rparr>"

text \<open>
  The metadata given to the vector index by the regeneration, from the instance read by
  \<open>findAll\<close>: \<open>concepts\<close> is \<open>JSON.stringify(concepts)\<close>, the normalised list.
\<close>

definition regenStoryMeta :: "Story \<Rightarrow> StoryAnalysis \<Rightarrow> string list \<Rightarrow> StoryMeta" where
  "regenStoryMeta story analysis concepts = \<lparr>
     sm_hnId = s_hnId story,
     sm_title = s_title story,
     sm_coreIdea = sa_core_idea analysis,
     sm_sentiment = sa_sentiment analysis,
     sm_controversyPotential = sa_controversy_potential analysis,
     sm_intellectualDepth = sa_intellectual_depth analysis,
     sm_concepts = JSON_stringify_strings concepts,
     sm_time = s_time story,
     sm_score = s_score story\<rparr>"

definition regenCommentMeta :: "Comment \<Rightarrow> CommentAnalysis \<Rightarrow> string list \<Rightarrow> CommentMeta" where
  "regenCommentMeta comment analysis concepts = \<lparr>
     cm_hnId = c_hnId comment,
     cm_storyHnId = c_storyHnId comment,
     cm_by = str_or (c_by comment) ''unknown'',
     cm_commentType = ca_comment_type analysis,
     cm_sentiment = ca_sentiment analysis,
     cm_concepts = JSON_stringify_strings concepts,
     cm_time = c_time comment\<rparr>"

text \<open>The body of the \<open>try\<close> block for one story; \<open>Some err\<close> is the error thrown.\<close>

definition regenerateStory :: "env \<Rightarrow> string \<Rightarrow> nat \<times> Story \<Rightarrow> world \<Rightarrow> error option \<times> world" where
  "regenerateStory e version inst w =
     (let row = fst inst; story = snd inst;
          rawText = stripHtml (s_text story)
      in (case analyzeStory e (s_title story) rawText (s_url story) of
            Inl err \<Rightarrow> (Some err, w)
          | Inr analysis \<Rightarrow>
              (let concepts = normalizeConcepts (sa_concepts analysis);
                   embeddingText = sa_core_idea analysis @ ''. Concepts: ''
                     @ join '', '' concepts @ ''. '' @ sa_community_angle analysis
                     @ ''. Entities: '' @ join '', '' (sa_entities analysis)
               in (case generateEmbedding e embeddingText of
                     Inl err \<Rightarrow> (Some err, w)
                   | Inr embedding \<Rightarrow>
                       (case dbFault e (StoryUpdate (s_hnId story)) of
                          Some err \<Rightarrow> (Some err, w)
                        | None \<Rightarrow>
                            (let w1 = w\<lparr>stories := (stories w)
                                        [row := Story_update
                                           (storyRegenPatch analysis concepts version
                                              (clock e (s_hnId story)))
                                           (stories w ! row)]\<rparr>
                             in (case addStoryEmbedding e (s_hnId story) of
                                   Some err \<Rightarrow> (Some err, w1)
                                 | None \<Rightarrow>
                                     (None, storyUpsert (s_hnId story) embedding
                                              (regenStoryMeta story analysis concepts) w1))))))))"

fun regenStories ::
  "env \<Rightarrow> string \<Rightarrow> (nat \<times> Story) list \<Rightarrow> regen_summary \<Rightarrow> world \<Rightarrow> regen_summary \<times> world" where
  "regenStories e version [] g w = (g, w)"
| "regenStories e version (inst # rest) g w =
     (case regenerateStory e version inst w of
        (None, w1) \<Rightarrow>
          regenStories e version rest (g\<lparr>g_storiesRegenerated := g_storiesRegenerated g + 1\<rparr>) w1
      | (Some err, w1) \<Rightarrow>
          regenStories e version rest
            (g\<lparr>g_errors := g_errors g
                  @ [''story '' @ show_int (s_hnId (snd inst)) @ '': '' @ err_message err]\<rparr>) w1)"

text \<open>
  The parent context of a comment under regeneration, read from the store:
  \<open>parent?.argumentSummary || undefined\<close>.
\<close>

definition regenParentContext :: "env \<Rightarrow> Comment \<Rightarrow> world \<Rightarrow> error + string option" where
  "regenParentContext e comment w =
     (case c_parentHnId comment of
        None \<Rightarrow> Inr None
      | Some p \<Rightarrow>
          if p = 0 then Inr None
          else (case dbFault e (CommentFindOne p) of
                  Some err \<Rightarrow> Inl err
                | None \<Rightarrow>
                    (case find_row (\<lambda>r. c_hnId r = p) (comments w) of
                       None \<Rightarrow> Inr None
                     | Some k \<Rightarrow> Inr (str_or_null (c_argumentSummary (comments w ! k))))))"

definition regenStoryTitle :: "Comment \<Rightarrow> world \<Rightarrow> string" where
  "regenStoryTitle comment w =
     (case find_row (\<lambda>r. s_hnId r = c_storyHnId comment) (stories w) of
        None \<Rightarrow> ''Unknown Story''
      | Some k \<Rightarrow> or_str (s_title (stories w ! k)) ''Unknown Story'')"

text \<open>
  The body of the \<open>try\<close> block for one comment: \<open>Inr False\<close> is the \<open>continue\<close> for a short
  text, \<open>Inr True\<close> a regenerated comment, \<open>Inl err\<close> the error thrown.
\<close>

definition regenerateComment ::
  "env \<Rightarrow> string \<Rightarrow> nat \<times> Comment \<Rightarrow> world \<Rightarrow> (error + bool) \<times> world" where
  "regenerateComment e version inst w =
     (let row = fst inst; comment = snd inst;
          commentText = stripHtml (c_text comment)
      in if length commentText \<le> 30 then (Inr False, w)
         else
           (case dbFault e (StoryFindOne (c_storyHnId comment)) of
              Some err \<Rightarrow> (Inl err, w)
            | None \<Rightarrow>
                (case regenParentContext e comment w of
                   Inl err \<Rightarrow> (Inl err, w)
                 | Inr parentContext \<Rightarrow>
                     (case analyzeComment e commentText (regenStoryTitle comment w) parentContext of
                        Inl err \<Rightarrow> (Inl err, w)
                      | Inr analysis \<Rightarrow>
                          (let concepts = normalizeConcepts (ca_concepts analysis);
                               embeddingText = ca_argument_summary analysis @ ''. Concepts: ''
                                 @ join '', '' concepts
                           in (case generateEmbedding e embeddingText of
                                 Inl err \<Rightarrow> (Inl err, w)
                               | Inr embedding \<Rightarrow>
                                   (case dbFault e (CommentUpdate (c_hnId comment)) of
                                      Some err \<Rightarrow> (Inl err, w)
                                    | None \<Rightarrow>
                                        (let w1 = w\<lparr>comments := (comments w)
                                                    [row := Comment_update
                                                       (commentRegenPatch analysis concepts version
                                                          (clock e (c_hnId comment)))
                                                       (comments w ! row)]\<rparr>
                                         in (case addCommentEmbedding e (c_hnId comment) of
                                               Some err \<Rightarrow> (Inl err, w1)
                                             | None \<Rightarrow>
                                                 (Inr True,
                                                  commentUpsert (c_hnId comment) embedding
                                                    (regenCommentMeta comment analysis concepts)
                                                    w1))))))))))"

fun regenComments ::
  "env \<Rightarrow> string \<Rightarrow> (nat \<times> Comment) list \<Rightarrow> regen_summary \<Rightarrow> world \<Rightarrow> regen_summary \<times> world" where
  "regenComments e version [] g w = (g, w)"
| "regenComments e version (inst # rest) g w =
     (case regenerateComment e version inst w of
        (Inr True, w1) \<Rightarrow>
          regenComments e version rest (g\<lparr>g_commentsRegenerated := g_commentsRegenerated g + 1\<rparr>) w1
      | (Inr False, w1) \<Rightarrow> regenComments e version rest g w1
      | (Inl err, w1) \<Rightarrow>
          regenComments e version rest
            (g\<lparr>g_errors := g_errors g
                  @ [''comment '' @ show_int (c_hnId (snd inst)) @ '': '' @ err_message err]\<rparr>) w1)"

definition no_summary :: regen_summary where
  "no_summary = \<lparr>g_storiesRegenerated = 0, g_commentsRegenerated = 0, g_errors = []\<rparr>"

definition regenType :: "regen_options \<Rightarrow> string" where
  "regenType opts = (case o_type opts of None \<Rightarrow> ''all'' | Some t \<Rightarrow> t)"

text \<open>
  \<open>runRegeneration\<close>: the stories, then the comments.  The only errors that leave it are
  those of the two \<open>findAll\<close> calls, which no \<open>try\<close> block covers.
\<close>

definition runRegeneration :: "env \<Rightarrow> regen_options \<Rightarrow> world \<Rightarrow> (error + regen_summary) \<times> world" where
  "runRegeneration e opts w =
     (let storiesPart =
            (if regenType opts = ''all'' \<or> regenType opts = ''stories''
             then (case dbFault e StoryFindAll of
                     Some err \<Rightarrow> (Inl err, w)
                   | None \<Rightarrow>
                       (case regenStories e (versionFilter opts) (storiesToRegen opts (stories w))
                               no_summary w of
                          (g, w1) \<Rightarrow> (Inr g, w1)))
             else (Inr no_summary, w))
      in (case storiesPart of
            (Inl err, w1) \<Rightarrow> (Inl err, w1)
          | (Inr g, w1) \<Rightarrow>
              if regenType opts = ''all'' \<or> regenType opts = ''comments''
              then (case dbFault e CommentFindAll of
                      Some err \<Rightarrow> (Inl err, w1)
                    | None \<Rightarrow>
                        (case regenComments e (versionFilter opts)
                                (commentsToRegen opts (comments w1)) g w1 of
                           (g1, w2) \<Rightarrow> (Inr g1, w2)))
              else (Inr g, w1)))"

section \<open>The writes of the two operations\<close>

text \<open>
  The ways in which an ingestion cycle changes the tables: a row is appended by \<open>create\<close>,
  or a row is updated with one of the patches above.  \<open>story_write ok tbl tbl'\<close> says that
  \<open>tbl'\<close> comes from \<open>tbl\<close> by any number of such writes, the rows created being those of
  items that satisfy \<open>ok\<close>.
\<close>

inductive story_write :: "(HNItem \<Rightarrow> bool) \<Rightarrow> Story list \<Rightarrow> Story list \<Rightarrow> bool" for ok tbl where
  sw_refl: "story_write ok tbl tbl"
| sw_create: "story_write ok tbl tbl' \<Longrightarrow> ok item \<Longrightarrow> story_write ok tbl (tbl' @ [newStory item])"
| sw_refresh: "story_write ok tbl tbl' \<Longrightarrow>
     story_write ok tbl (tbl'[row := Story_update (storyRefreshPatch item (tbl' ! row)) (tbl' ! row)])"
| sw_analyzed: "story_write ok tbl tbl' \<Longrightarrow>
     story_write ok tbl (tbl'[row := Story_update
        (storyAnalysisPatch a (normalizeConcepts (sa_concepts a)) now) (tbl' ! row)])"

text \<open>The items from which a cycle may create a story: fetched, of type story, recent.\<close>

definition fresh_story :: "env \<Rightarrow> HNItem \<Rightarrow> bool" where
  "fresh_story e item \<longleftrightarrow>
     (\<exists>k. fetchItem e k = Some item \<and> i_type item = ''story''
          \<and> isRecent (cfg e) (clock e k) (i_time item))"

inductive comment_write :: "Comment list \<Rightarrow> Comment list \<Rightarrow> bool" for tbl where
  cw_refl: "comment_write tbl tbl"
| cw_create: "comment_write tbl tbl' \<Longrightarrow> comment_write tbl (tbl' @ [newComment ci sid])"
| cw_analyzed: "comment_write tbl tbl' \<Longrightarrow>
     comment_write tbl (tbl'[row := Comment_update
        (commentAnalysisPatch a (normalizeConcepts (ca_concepts a)) now) (tbl' ! row)])"

text \<open>
  The writes of a regeneration run with target version \<open>v\<close>: updates with the regeneration
  patch, of rows that are embedded.
\<close>

inductive story_regen :: "string \<Rightarrow> Story list \<Rightarrow> Story list \<Rightarrow> bool" for v tbl where
  sr_refl: "story_regen v tbl tbl"
| sr_update: "story_regen v tbl tbl' \<Longrightarrow> row < length tbl' \<Longrightarrow> s_embedded (tbl' ! row) \<Longrightarrow>
     story_regen v tbl (tbl'[row := Story_update
        (storyRegenPatch a (normalizeConcepts (sa_concepts a)) v now) (tbl' ! row)])"

inductive comment_regen :: "string \<Rightarrow> Comment list \<Rightarrow> Comment list \<Rightarrow> bool" for v tbl where
  cr_refl: "comment_regen v tbl tbl"
| cr_update: "comment_regen v tbl tbl' \<Longrightarrow> row < length tbl' \<Longrightarrow> c_embedded (tbl' ! row) \<Longrightarrow>
     comment_regen v tbl (tbl'[row := Comment_update
        (commentRegenPatch a (normalizeConcepts (ca_concepts a)) v now) (tbl' ! row)])"

text \<open>The two properties of a stored row that the operations keep.\<close>

definition story_analyzed_iff :: "Story \<Rightarrow> bool" where
  "story_analyzed_iff s \<longleftrightarrow> (s_embedded s \<longleftrightarrow> s_analysisVersion s \<noteq> None)"

definition comment_analyzed_iff :: "Comment \<Rightarrow> bool" where
  "comment_analyzed_iff c \<longleftrightarrow> (c_embedded c \<longleftrightarrow> c_analysisVersion c \<noteq> None)"

definition concepts_ok :: "string list option \<Rightarrow> bool" where
  "concepts_ok cs \<longleftrightarrow> (case cs of None \<Rightarrow> True | Some l \<Rightarrow> list_all concept_ok l)"

section \<open>Sample inputs\<close>

text \<open>Sample errors and response texts used to exercise the functions above.\<close>

definition axios_error :: "int \<Rightarrow> error" where
  "axios_error st = \<lparr>err_name = ''AxiosError'', err_message = ''Request failed'',
                      err_status = Some st, err_provider_name = None, err_retry_after = None\<rparr>"

text \<open>
  A rate-limit response whose \<open>Retry-After\<close> header is an HTTP date, and a call that meets
  it once and then succeeds.
\<close>

definition rate_limited_until_date :: error where
  "rate_limited_until_date =
     (axios_error 429)\<lparr>err_retry_after := Some ''Wed, 21 Oct 2015 07:28:00 GMT''\<rparr>"

definition limited_once :: "nat \<Rightarrow> error + bool" where
  "limited_once k = (if k = 0 then Inl rate_limited_until_date else Inr True)"

definition dq :: string where
  "dq = [CHR 0x22]"

definition two_objects :: string where
  "two_objects = ''{'' @ dq @ ''a'' @ dq @ '':1} {'' @ dq @ ''b'' @ dq @ '':2}''"

definition first_object :: string where
  "first_object = ''{'' @ dq @ ''a'' @ dq @ '':1}''"

definition wrapped_object :: string where
  "wrapped_object = ''Here you go: {'' @ dq @ ''a'' @ dq @ '':1} Done.''"

text \<open>
  A small feed: story 101 is one hour old and has the comment 301; story 202 and the job
  posting 303 are twenty hours old.  The clock stands at 100000 seconds.
\<close>

definition sample_item :: HNItem where
  "sample_item = \<lparr>i_id = 0, i_type = ''story'', i_by = Some ''pg'', i_time = 0, i_text = None,
     i_url = None, i_title = None, i_score = None, i_descendants = None, i_kids = None,
     i_parent = None, i_deleted = None, i_dead = None\<rparr>"

definition item101 :: HNItem where
  "item101 = sample_item\<lparr>i_id := 101, i_time := 96400, i_title := Some ''Show HN: Ethos'',
     i_score := Some 10, i_kids := Some [301]\<rparr>"

definition item202 :: HNItem where
  "item202 = sample_item\<lparr>i_id := 202, i_time := 28000, i_title := Some ''An old story'',
     i_score := Some 99, i_descendants := Some 7\<rparr>"

definition item301 :: HNItem where
  "item301 = sample_item\<lparr>i_id := 301, i_type := ''comment'', i_time := 98200,
     i_parent := Some 101,
     i_text := Some ''<p>This is a comment that is long enough to analyze.</p>''\<rparr>"

definition item303 :: HNItem where
  "item303 = sample_item\<lparr>i_id := 303, i_type := ''job'', i_time := 28000,
     i_title := Some ''We are hiring''\<rparr>"

definition sample_cfg :: config where
  "sample_cfg = \<lparr>MAX_AGE_HOURS = 8, MAX_STORIES = 0, MAX_COMMENTS_PER_STORY = 0,
     NEW_COMMENTS_BATCH = 10, LLM_DELAY_MS = 200\<rparr>"

definition sample_story_analysis :: StoryAnalysis where
  "sample_story_analysis = \<lparr>sa_core_idea = ''discourse analysis'',
     sa_concepts = [''Open_Source  Sustainability'', '' ''], sa_technologies = [''Rust''],
     sa_entities = [''OpenAI''], sa_community_angle = ''tooling'', sa_sentiment = ''positive'',
     sa_sentiment_score = 1, sa_controversy_potential = ''low'',
     sa_intellectual_depth = ''deep''\<rparr>"

definition sample_comment_analysis :: CommentAnalysis where
  "sample_comment_analysis = \<lparr>ca_argument_summary = ''a point'',
     ca_concepts = [''Type_Safety''], ca_technologies = [], ca_entities = [],
     ca_comment_type = ''question'', ca_sentiment = ''neutral'', ca_sentiment_score = 0\<rparr>"

definition sample_env :: env where
  "sample_env = \<lparr>cfg = sample_cfg, clock = (\<lambda>k. 100000000),
     fetchTopStoryIds = Inr [101, 202], fetchNewStoryIds = Inr [202, 101],
     fetchItem = (\<lambda>k. if k = 101 then Some item101 else if k = 202 then Some item202
                       else if k = 301 then Some item301 else if k = 303 then Some item303
                       else None),
     analyzeStory = (\<lambda>title body url. Inr sample_story_analysis),
     analyzeComment = (\<lambda>body title parent. Inr sample_comment_analysis),
     generateEmbedding = (\<lambda>txt. Inr [1, 2]),
     addStoryEmbedding = (\<lambda>k. None), addCommentEmbedding = (\<lambda>k. None),
     dbFault = (\<lambda>op. None)\<rparr>"

text \<open>The same feed with an analysis client that fails on every story.\<close>

definition failing_env :: env where
  "failing_env = sample_env\<lparr>analyzeStory := (\<lambda>title body url. Inl (Error ''Request failed''))\<rparr>"

text \<open>The same feed with the job posting 303 as the only candidate.\<close>

definition job_env :: env where
  "job_env = sample_env\<lparr>fetchTopStoryIds := Inr [303], fetchNewStoryIds := Inr []\<rparr>"

definition sample_worker :: workerState where
  "sample_worker = \<lparr>running = True, lastRunAt = None, lastRunResult = None, totalProcessed = 0,
     totalEmbedded = 0, currentlyProcessing = None, cycleStartedAt = None, cycleTotal = 0,
     cycleCurrent = 0, cyclePhase = None, errors = []\<rparr>"

definition empty_world :: world where
  "empty_world = \<lparr>stories = [], comments = [], storyCollection = [], commentCollection = [],
     worker = sample_worker\<rparr>"

text \<open>A store that already holds story 202, with an older score.\<close>

definition world_with_202 :: world where
  "world_with_202 = \<lparr>stories = [(newStory item202)\<lparr>s_score := 5\<rparr>], comments = [],
     storyCollection = [], commentCollection = [], worker = sample_worker\<rparr>"

text \<open>A store that already holds story 101, with an older score, and comment 301.\<close>

definition world_with_301 :: world where
  "world_with_301 = \<lparr>stories = [(newStory item101)\<lparr>s_score := 3\<rparr>],
     comments = [newComment item301 101], storyCollection = [], commentCollection = [],
     worker = sample_worker\<rparr>"

text \<open>
  A store with a story analysed before the version column existed: embedded, without
  analysis version.
\<close>

definition legacy_world :: world where
  "legacy_world = \<lparr>stories = [(newStory item101)\<lparr>s_embedded := True\<rparr>], comments = [],
     storyCollection = [], commentCollection = [], worker = sample_worker\<rparr>"

text \<open>The store after a first cycle over the sample feed: story 101 and comment 301, analysed.\<close>

definition analyzed_world :: world where
  "analyzed_world = \<lparr>
     stories = [Story_update
                  (storyAnalysisPatch sample_story_analysis
                     (normalizeConcepts (sa_concepts sample_story_analysis)) 100000000)
                  (newStory item101)],
     comments = [Comment_update
                   (commentAnalysisPatch sample_comment_analysis
                      (normalizeConcepts (ca_concepts sample_comment_analysis)) 100000000)
                   (newComment item301 101)],
     storyCollection = [(''story_101'', [1, 2], newStoryMeta item101 sample_story_analysis)],
     commentCollection =
       [(''comment_301'', [1, 2],
         newCommentMeta item301 101 sample_comment_analysis
           (normalizeConcepts (ca_concepts sample_comment_analysis)))],
     worker = sample_worker\<rparr>"

definition all_options :: regen_options where
  "all_options = \<lparr>o_targetVersion = None, o_maxItems = None, o_type = None, o_since = None,
     o_until = None\<rparr>"

section \<open>Properties of the string functions\<close>

lemma lower_char_idem: "lower_char (lower_char c) = lower_char c"
  unfolding lower_char_def code_def
  by (auto simp: mod_if)

lemma set_collapse_ws: "set (collapse_ws s) \<subseteq> set s \<union> {CHR '' ''}"
proof (induction s rule: collapse_ws.induct)
  case 1 show ?case by simp
next
  case (2 c cs)
  have "set (dropWhile is_space cs) \<subseteq> set cs" by (rule set_dropWhileD [THEN subsetI])
  with 2 show ?case by auto
qed

lemma set_trim: "set (trim s) \<subseteq> set s"
proof -
  have "set (trim s) \<subseteq> set (dropWhile is_space s)"
    unfolding trim_def by (auto dest: set_dropWhileD)
  also have "\<dots> \<subseteq> set s" by (auto dest: set_dropWhileD)
  finally show ?thesis .
qed

lemma has_ws_run_Cons:
  "has_ws_run (c # s) = ((s \<noteq> [] \<and> is_space c \<and> is_space (hd s)) \<or> has_ws_run s)"
  by (cases s) auto

lemma has_ws_run_iff:
  "has_ws_run s \<longleftrightarrow> (\<exists>xs p q ys. s = xs @ p # q # ys \<and> is_space p \<and> is_space q)"
proof (induction s rule: has_ws_run.induct)
  case (1 a b cs)
  show ?case
  proof
    assume "has_ws_run (a # b # cs)"
    then consider "is_space a \<and> is_space b" | "has_ws_run (b # cs)" by auto
    then show "\<exists>xs p q ys. a # b # cs = xs @ p # q # ys \<and> is_space p \<and> is_space q"
    proof cases
      case 1 then show ?thesis by (intro exI [of _ "[]"]) auto
    next
      case 2
      with "1.IH" obtain xs p q ys where "b # cs = xs @ p # q # ys" "is_space p" "is_space q"
        by auto
      then have "a # b # cs = (a # xs) @ p # q # ys \<and> is_space p \<and> is_space q" by simp
      then show ?thesis by blast
    qed
  next
    assume "\<exists>xs p q ys. a # b # cs = xs @ p # q # ys \<and> is_space p \<and> is_space q"
    then obtain xs p q ys where e: "a # b # cs = xs @ p # q # ys" and s: "is_space p" "is_space q"
      by auto
    show "has_ws_run (a # b # cs)"
    proof (cases xs)
      case Nil with e s show ?thesis by auto
    next
      case (Cons x xs')
      with e have "b # cs = xs' @ p # q # ys" by simp
      with s have "\<exists>xs p q ys. b # cs = xs @ p # q # ys \<and> is_space p \<and> is_space q" by blast
      with "1.IH" have "has_ws_run (b # cs)" by simp
      then show ?thesis by simp
    qed
  qed
qed (auto simp: Cons_eq_append_conv)

lemma has_ws_run_rev: "has_ws_run (rev s) = has_ws_run s"
proof -
  have "has_ws_run (rev t)" if "has_ws_run t" for t
  proof -
    from that obtain xs a b ys where "t = xs @ a # b # ys" "is_space a" "is_space b"
      unfolding has_ws_run_iff by auto
    then have "rev t = rev ys @ b # a # rev xs \<and> is_space b \<and> is_space a" by simp
    then show ?thesis unfolding has_ws_run_iff by blast
  qed
  from this [of s] this [of "rev s"] show ?thesis by auto
qed

lemma has_ws_run_dropWhile: "has_ws_run (dropWhile P s) \<Longrightarrow> has_ws_run s"
proof -
  assume "has_ws_run (dropWhile P s)"
  then obtain xs a b ys where "dropWhile P s = xs @ a # b # ys" "is_space a" "is_space b"
    unfolding has_ws_run_iff by auto
  then have "s = (takeWhile P s @ xs) @ a # b # ys \<and> is_space a \<and> is_space b"
    by (metis append.assoc takeWhile_dropWhile_id)
  then show ?thesis unfolding has_ws_run_iff by blast
qed

lemma has_ws_run_trim: "has_ws_run (trim s) \<Longrightarrow> has_ws_run s"
  unfolding trim_def
  by (auto simp: has_ws_run_rev dest!: has_ws_run_dropWhile)

lemma collapse_ws_hd:
  "s \<noteq> [] \<Longrightarrow> \<not> is_space (hd s) \<Longrightarrow> collapse_ws s \<noteq> [] \<and> hd (collapse_ws s) = hd s"
  by (cases s) auto

lemma collapse_ws_no_run: "\<not> has_ws_run (collapse_ws s)"
proof (induction s rule: collapse_ws.induct)
  case 1 show ?case by simp
next
  case (2 c cs)
  show ?case
  proof (cases "is_space c")
    case True
    let ?d = "dropWhile is_space cs"
    have "collapse_ws ?d \<noteq> [] \<Longrightarrow> \<not> is_space (hd (collapse_ws ?d))"
    proof -
      assume "collapse_ws ?d \<noteq> []"
      then have ne: "?d \<noteq> []" by (metis collapse_ws.simps(1))
      then have "\<not> is_space (hd ?d)" by (rule hd_dropWhile)
      with ne show ?thesis using collapse_ws_hd by metis
    qed
    with True 2 show ?thesis by (auto simp: has_ws_run_Cons)
  next
    case False
    with 2 show ?thesis by (auto simp: has_ws_run_Cons)
  qed
qed

lemma trim_ends: "trim s \<noteq> [] \<Longrightarrow> \<not> is_space (hd (trim s)) \<and> \<not> is_space (last (trim s))"
proof -
  let ?u = "dropWhile is_space s"
  let ?v = "dropWhile is_space (rev ?u)"
  assume "trim s \<noteq> []"
  then have v: "?v \<noteq> []" unfolding trim_def by simp
  then have u: "?u \<noteq> []" by (metis dropWhile.simps(1) rev.simps(1))
  have 1: "\<not> is_space (hd ?v)" using v by (rule hd_dropWhile)
  have 2: "\<not> is_space (hd ?u)" using u by (rule hd_dropWhile)
  have "rev ?u = takeWhile is_space (rev ?u) @ ?v" by simp
  then have "last (rev ?u) = last ?v" using v by (metis last_appendR)
  then have 3: "last ?v = hd ?u" using u by (simp add: last_rev)
  have "hd (trim s) = last ?v" unfolding trim_def using v by (simp add: hd_rev)
  moreover have "last (trim s) = hd ?v" unfolding trim_def using v by (simp add: last_rev)
  ultimately show ?thesis using 1 2 3 by simp
qed

lemma trim_fixed: "s = [] \<or> (\<not> is_space (hd s) \<and> \<not> is_space (last s)) \<Longrightarrow> trim s = s"
proof (cases "s = []")
  case True then show ?thesis by (simp add: trim_def)
next
  case False
  assume "s = [] \<or> (\<not> is_space (hd s) \<and> \<not> is_space (last s))"
  with False have h: "\<not> is_space (hd s)" and l: "\<not> is_space (last s)" by auto
  from False h have 1: "dropWhile is_space s = s" by (cases s) auto
  have 2: "dropWhile is_space (rev s) = rev s"
  proof (cases "rev s")
    case Nil with False show ?thesis by simp
  next
    case (Cons a list)
    have "hd (rev s) = last s" using False by (simp add: hd_rev)
    with Cons l have "\<not> is_space a" by simp
    with Cons show ?thesis by simp
  qed
  show ?thesis unfolding trim_def by (simp add: 1 2)
qed



lemma normalizeConcept_chars:
  "set (normalizeConcept c) \<subseteq> {ch. lower_char ch = ch \<and> ch \<noteq> CHR ''_''}"
proof -
  have sp: "lower_char (CHR '' '') = CHR '' ''" by (simp add: lower_char_def code_def)
  have 1: "set (replace_underscores (toLowerCase c)) \<subseteq> {ch. lower_char ch = ch \<and> ch \<noteq> CHR ''_''}"
    unfolding replace_underscores_def toLowerCase_def
  proof
    fix x assume "x \<in> set (map (\<lambda>c. if c = CHR ''_'' then CHR '' '' else c) (map lower_char c))"
    then obtain y where y: "y \<in> set c" "x = (if lower_char y = CHR ''_'' then CHR '' '' else lower_char y)"
      by auto
    show "x \<in> {ch. lower_char ch = ch \<and> ch \<noteq> CHR ''_''}"
    proof (cases "lower_char y = CHR ''_''")
      case True with y sp show ?thesis by simp
    next
      case False with y show ?thesis by (simp add: lower_char_idem)
    qed
  qed
  have "set (normalizeConcept c) \<subseteq> set (replace_underscores (toLowerCase c)) \<union> {CHR '' ''}"
    unfolding normalizeConcept_def using set_trim set_collapse_ws by blast
  with 1 sp show ?thesis by auto
qed

lemma normalizeConcept_ok:
  assumes "normalizeConcept c \<noteq> []"
  shows "concept_ok (normalizeConcept c)"
proof -
  let ?r = "normalizeConcept c"
  have "\<forall>ch\<in>set ?r. lower_char ch = ch" using normalizeConcept_chars by blast
  then have 1: "toLowerCase ?r = ?r" unfolding toLowerCase_def by (simp add: map_idI)
  have 2: "CHR ''_'' \<notin> set ?r" using normalizeConcept_chars by blast
  have 3: "\<not> has_ws_run ?r"
    unfolding normalizeConcept_def using has_ws_run_trim collapse_ws_no_run by blast
  have "?r = trim (collapse_ws (replace_underscores (toLowerCase c)))"
    by (simp add: normalizeConcept_def)
  with assms trim_ends have "\<not> is_space (hd ?r) \<and> \<not> is_space (last ?r)" by metis
  then have 4: "trim ?r = ?r" by (intro trim_fixed) simp
  from 1 2 3 4 assms show ?thesis by (simp add: concept_ok_def)
qed

lemma normalizeConcepts_ok: "c \<in> set (normalizeConcepts cs) \<Longrightarrow> concept_ok c"
  unfolding normalizeConcepts_def using normalizeConcept_ok by auto

section \<open>Properties of the analysis client\<close>

subsection \<open>Evaluating the JSON parser\<close>

lemma parse_value_code [code]:
  "parse_value 0 s = None"
  "parse_value (Suc n) s = parse_value_step (parse_elements n) (parse_members n) s"
  by (simp_all add: parse_value_def parse_elements_def parse_members_def split: prod.splits)

lemma parse_elements_code [code]:
  "parse_elements 0 s acc = None"
  "parse_elements (Suc n) s acc = parse_elements_step (parse_value n) (parse_elements n) s acc"
  by (simp_all add: parse_value_def parse_elements_def parse_members_def split: prod.splits)

lemma parse_members_code [code]:
  "parse_members 0 s acc = None"
  "parse_members (Suc n) s acc = parse_members_step (parse_value n) (parse_members n) s acc"
  by (simp_all add: parse_value_def parse_elements_def parse_members_def split: prod.splits)

subsection \<open>The fallback match of parseJsonResponse\<close>

lemma match_braces_Some:
  assumes "match_braces content = Some m"
  shows "\<exists>pre post. content = pre @ m @ post \<and> CHR ''{'' \<notin> set pre \<and> CHR ''}'' \<notin> set post
           \<and> m \<noteq> [] \<and> hd m = CHR ''{'' \<and> last m = CHR ''}''"
proof -
  let ?pre = "takeWhile (\<lambda>c. c \<noteq> CHR ''{'') content"
  let ?fo = "dropWhile (\<lambda>c. c \<noteq> CHR ''{'') content"
  let ?d = "dropWhile (\<lambda>c. c \<noteq> CHR ''}'') (rev ?fo)"
  let ?t = "takeWhile (\<lambda>c. c \<noteq> CHR ''}'') (rev ?fo)"
  from assms have m: "m = rev ?d" and ne: "?d \<noteq> []"
    by (auto simp: match_braces_def Let_def split: if_splits)
  have "rev ?fo = ?t @ ?d" by simp
  then have "?fo = rev ?d @ rev ?t" by (metis rev_append rev_rev_ident)
  then have fo: "?fo = m @ rev ?t" using m by simp
  have c: "content = ?pre @ m @ rev ?t" using fo by (metis takeWhile_dropWhile_id)
  have p1: "CHR ''{'' \<notin> set ?pre" by (auto dest: set_takeWhileD)
  have p2: "CHR ''}'' \<notin> set (rev ?t)" by (auto dest: set_takeWhileD)
  have "hd ?d = CHR ''}''" using ne hd_dropWhile [of "\<lambda>c. c \<noteq> CHR ''}''" "rev ?fo"] by simp
  then have l: "last m = CHR ''}''" using m ne by (simp add: last_rev)
  have mne: "m \<noteq> []" using m ne by simp
  have "?fo \<noteq> []" using fo mne by (metis Nil_is_append_conv)
  then have "hd ?fo = CHR ''{''" using hd_dropWhile [of "\<lambda>c. c \<noteq> CHR ''{''" content] by simp
  then have h: "hd m = CHR ''{''" using fo mne by (metis hd_append2)
  from c p1 p2 mne h l show ?thesis by blast
qed

lemma match_braces_None:
  assumes "match_braces content = None"
  shows "\<not> (\<exists>pre mid post. content = pre @ CHR ''{'' # mid @ CHR ''}'' # post)"
proof
  assume "\<exists>pre mid post. content = pre @ CHR ''{'' # mid @ CHR ''}'' # post"
  then obtain pre mid post where c: "content = pre @ CHR ''{'' # mid @ CHR ''}'' # post" by blast
  let ?fo = "dropWhile (\<lambda>c. c \<noteq> CHR ''{'') content"
  from assms have "dropWhile (\<lambda>c. c \<noteq> CHR ''}'') (rev ?fo) = []"
    by (auto simp: match_braces_def Let_def split: if_splits)
  then have no: "CHR ''}'' \<notin> set ?fo" by (auto simp: dropWhile_eq_Nil_conv)
  have "CHR ''}'' \<in> set ?fo"
  proof (cases "CHR ''{'' \<in> set pre")
    case True
    then have "?fo = dropWhile (\<lambda>c. c \<noteq> CHR ''{'') pre @ CHR ''{'' # mid @ CHR ''}'' # post"
      unfolding c by (subst dropWhile_append1) auto
    then show ?thesis by simp
  next
    case False
    then have "?fo = CHR ''{'' # mid @ CHR ''}'' # post"
      unfolding c by (subst dropWhile_append2) auto
    then show ?thesis by simp
  qed
  with no show False by simp
qed

text \<open>
  C9, as amended.  \<open>parseJsonResponse\<close> returns the strict parse of the whole text when
  that succeeds.  When it fails, the fallback is the stretch from the first \<open>{\<close> to the
  last \<open>}\<close> of the text (a greedy match, not a balanced one): the result of the call is
  the strict parse of that stretch, value or error.  When no \<open>}\<close> follows the first
  \<open>{\<close>, the call fails with the error "Failed to parse JSON from response".
\<close>

theorem parseJsonResponse_greedy_fallback:
  "(JSON_parse content = Inr v \<longrightarrow> parseJsonResponse content = Inr v)
   \<and> (isl (JSON_parse content) \<longrightarrow> match_braces content = Some m \<longrightarrow>
        parseJsonResponse content = JSON_parse m
        \<and> (\<exists>pre post. content = pre @ m @ post \<and> CHR ''{'' \<notin> set pre \<and> CHR ''}'' \<notin> set post
              \<and> hd m = CHR ''{'' \<and> last m = CHR ''}''))
   \<and> (isl (JSON_parse content) \<longrightarrow> match_braces content = None \<longrightarrow>
        parseJsonResponse content
          = Inl (Error (''Failed to parse JSON from response: '' @ take 200 content))
        \<and> \<not> (\<exists>pre mid post. content = pre @ CHR ''{'' # mid @ CHR ''}'' # post))"
proof (intro conjI impI)
  assume "JSON_parse content = Inr v"
  then show "parseJsonResponse content = Inr v" by (simp add: parseJsonResponse_def)
next
  assume "isl (JSON_parse content)" "match_braces content = Some m"
  then show "parseJsonResponse content = JSON_parse m"
    by (cases "JSON_parse content") (simp_all add: parseJsonResponse_def)
next
  assume "match_braces content = Some m"
  from match_braces_Some [OF this]
  show "\<exists>pre post. content = pre @ m @ post \<and> CHR ''{'' \<notin> set pre \<and> CHR ''}'' \<notin> set post
          \<and> hd m = CHR ''{'' \<and> last m = CHR ''}''" by blast
next
  assume "isl (JSON_parse content)" "match_braces content = None"
  then show "parseJsonResponse content
               = Inl (Error (''Failed to parse JSON from response: '' @ take 200 content))"
    by (cases "JSON_parse content") (simp_all add: parseJsonResponse_def)
next
  assume "match_braces content = None"
  then show "\<not> (\<exists>pre mid post. content = pre @ CHR ''{'' # mid @ CHR ''}'' # post)"
    by (rule match_braces_None)
qed

theorem parseJsonResponse_greedy_fallback_witness:
  "isl (JSON_parse wrapped_object) \<and> match_braces wrapped_object = Some first_object
   \<and> parseJsonResponse wrapped_object = Inr (JObject [([97], JNumber ''1'')])
   \<and> isl (JSON_parse ''no json here'') \<and> match_braces ''no json here'' = None
   \<and> parseJsonResponse ''no json here''
        = Inl (Error ''Failed to parse JSON from response: no json here'')
   \<and> JSON_parse ''[1, 2]'' = Inr (JArray [JNumber ''1'', JNumber ''2''])
   \<and> parseJsonResponse ''[1, 2]'' = Inr (JArray [JNumber ''1'', JNumber ''2''])"
proof -
  have a: "isl (JSON_parse wrapped_object)" by code_simp
  have b: "match_braces wrapped_object = Some first_object" by code_simp
  have c: "JSON_parse first_object = Inr (JObject [([97], JNumber ''1'')])" by code_simp
  have d: "isl (JSON_parse ''no json here'')" by code_simp
  have e: "match_braces ''no json here'' = None" by code_simp
  have f: "JSON_parse ''[1, 2]'' = Inr (JArray [JNumber ''1'', JNumber ''2''])" by code_simp
  from parseJsonResponse_greedy_fallback [of wrapped_object _ first_object] a b c
  have 1: "parseJsonResponse wrapped_object = Inr (JObject [([97], JNumber ''1'')])" by simp
  from parseJsonResponse_greedy_fallback [of "''no json here''"] d e
  have 2: "parseJsonResponse ''no json here''
             = Inl (Error ''Failed to parse JSON from response: no json here'')" by simp
  from parseJsonResponse_greedy_fallback [of "''[1, 2]''" "JArray [JNumber ''1'', JNumber ''2'']"] f
  have 3: "parseJsonResponse ''[1, 2]'' = Inr (JArray [JNumber ''1'', JNumber ''2''])" by simp
  from a b d e f 1 2 3 show ?thesis by simp
qed

text \<open>
  C9 as stated fails.  The text \<open>two_objects\<close> is not JSON as a whole; its first balanced
  \<open>{...}\<close> substring is \<open>first_object\<close>, which parses; yet the call ends in an error,
  because the fallback parses the greedy match, which is the whole text again.
\<close>

theorem parseJsonResponse_first_balanced_counterexample:
  "isl (JSON_parse two_objects)
   \<and> first_balanced two_objects = Some first_object
   \<and> JSON_parse first_object = Inr (JObject [([97], JNumber ''1'')])
   \<and> match_braces two_objects = Some two_objects
   \<and> isl (parseJsonResponse two_objects)"
  by code_simp

subsection \<open>The retry loop\<close>

lemma withRetry_from_result:
  "attempt \<le> maxRetries \<Longrightarrow>
   \<exists>k ds. attempt \<le> k \<and> k \<le> maxRetries
     \<and> fst (withRetry_from fn maxRetries attempt slept) = fn k
     \<and> snd (withRetry_from fn maxRetries attempt slept) = slept @ ds
     \<and> length ds = k - attempt
     \<and> (\<forall>j. attempt \<le> j \<and> j < k \<longrightarrow>
            (\<exists>e. fn j = Inl e \<and> retryDecision e j maxRetries = Some (ds ! (j - attempt))))
     \<and> (\<forall>e. fn k = Inl e \<longrightarrow> retryDecision e k maxRetries = None)"
proof (induction fn maxRetries attempt slept rule: withRetry_from.induct)
  case (1 fn maxRetries attempt slept)
  show ?case
  proof (cases "fn attempt")
    case (Inr v)
    with "1.prems" show ?thesis
      by (intro exI [of _ attempt] exI [of _ "[]"]) auto
  next
    case (Inl e)
    show ?thesis
    proof (cases "retryDecision e attempt maxRetries")
      case None
      with Inl "1.prems" show ?thesis
        by (intro exI [of _ attempt] exI [of _ "[]"]) auto
    next
      case (Some d)
      then have lt: "attempt < maxRetries"
        by (auto simp: retryDecision_def split: if_splits)
      then have "Suc attempt \<le> maxRetries" by simp
      from "1.IH" [OF "1.prems" Inl Some this]
      obtain k ds where k: "Suc attempt \<le> k" "k \<le> maxRetries"
        "fst (withRetry_from fn maxRetries (Suc attempt) (slept @ [d])) = fn k"
        "snd (withRetry_from fn maxRetries (Suc attempt) (slept @ [d])) = (slept @ [d]) @ ds"
        "length ds = k - Suc attempt"
        "\<forall>j. Suc attempt \<le> j \<and> j < k \<longrightarrow>
           (\<exists>e. fn j = Inl e \<and> retryDecision e j maxRetries = Some (ds ! (j - Suc attempt)))"
        "\<forall>e. fn k = Inl e \<longrightarrow> retryDecision e k maxRetries = None"
        by blast
      have eq: "withRetry_from fn maxRetries attempt slept
                  = withRetry_from fn maxRetries (Suc attempt) (slept @ [d])"
        using "1.prems" Inl Some by simp
      have "\<forall>j. attempt \<le> j \<and> j < k \<longrightarrow>
              (\<exists>e. fn j = Inl e \<and> retryDecision e j maxRetries = Some ((d # ds) ! (j - attempt)))"
      proof (intro allI impI)
        fix j assume j: "attempt \<le> j \<and> j < k"
        show "\<exists>e. fn j = Inl e \<and> retryDecision e j maxRetries = Some ((d # ds) ! (j - attempt))"
        proof (cases "j = attempt")
          case True with Inl Some show ?thesis by simp
        next
          case False
          with j have "Suc attempt \<le> j \<and> j < k" by simp
          with k(6) obtain e' where
            "fn j = Inl e'" "retryDecision e' j maxRetries = Some (ds ! (j - Suc attempt))" by blast
          moreover have "(d # ds) ! (j - attempt) = ds ! (j - Suc attempt)"
            using False j by (simp add: nth_Cons')
          ultimately show ?thesis by simp
        qed
      qed
      with k show ?thesis
        unfolding eq by (intro exI [of _ k] exI [of _ "d # ds"]) auto
    qed
  qed
qed

text \<open>
  The decision table of the retry wrapper, as far as it holds.  On status 429, when
  \<open>parseInt\<close> reads a number of seconds from the Retry-After header (0 when the header
  is absent), the wrapper sleeps the larger of that and 3000 * 2^attempt milliseconds;
  on a status of 500 or more it sleeps 2000 * 2^attempt (exponential); on a 400 that
  names a provider it sleeps 2000 * (attempt + 1) (linear); each only while the attempt
  is below the cap.  At the cap, and for every other error, the error is rethrown.  Over
  the whole loop: the result is the outcome of the first attempt that succeeded or whose
  error is not retried, no attempt beyond the cap is made, and the delays slept are
  those the table gives.
\<close>

theorem withRetry_decision_table:
  "(err_status e = Some 429 \<longrightarrow> attempt < maxRetries \<longrightarrow>
      parseInt (str_or (err_retry_after e) ''0'') = Num secs \<longrightarrow>
      retryDecision e attempt maxRetries = Some (Num (max (secs * 1000) (3000 * 2 ^ attempt))))
   \<and> (err_status e = Some st \<longrightarrow> 500 \<le> st \<longrightarrow> attempt < maxRetries \<longrightarrow>
        retryDecision e attempt maxRetries = Some (Num (2000 * 2 ^ attempt)))
   \<and> (err_status e = Some 400 \<longrightarrow> err_provider_name e = Some p \<longrightarrow> p \<noteq> [] \<longrightarrow>
        attempt < maxRetries \<longrightarrow>
        retryDecision e attempt maxRetries = Some (Num (2000 * (int attempt + 1))))
   \<and> (maxRetries \<le> attempt \<longrightarrow> retryDecision e attempt maxRetries = None)
   \<and> (err_status e \<noteq> Some 429 \<longrightarrow> (\<forall>s. err_status e = Some s \<longrightarrow> s < 500) \<longrightarrow>
        (err_status e = Some 400 \<longrightarrow> str_or (err_provider_name e) [] = []) \<longrightarrow>
        retryDecision e attempt maxRetries = None)
   \<and> (\<exists>k\<le>maxRetries.
          fst (withRetry fn maxRetries) = fn k
          \<and> length (snd (withRetry fn maxRetries)) = k
          \<and> (\<forall>j<k. \<exists>e'. fn j = Inl e'
                \<and> retryDecision e' j maxRetries = Some (snd (withRetry fn maxRetries) ! j))
          \<and> (\<forall>e'. fn k = Inl e' \<longrightarrow> retryDecision e' k maxRetries = None))"
proof (intro conjI)
  show "err_status e = Some 429 \<longrightarrow> attempt < maxRetries \<longrightarrow>
      parseInt (str_or (err_retry_after e) ''0'') = Num secs \<longrightarrow>
      retryDecision e attempt maxRetries = Some (Num (max (secs * 1000) (3000 * 2 ^ attempt)))"
    by (simp add: retryDecision_def)
  show "err_status e = Some st \<longrightarrow> 500 \<le> st \<longrightarrow> attempt < maxRetries \<longrightarrow>
        retryDecision e attempt maxRetries = Some (Num (2000 * 2 ^ attempt))"
    by (simp add: retryDecision_def)
  show "err_status e = Some 400 \<longrightarrow> err_provider_name e = Some p \<longrightarrow> p \<noteq> [] \<longrightarrow>
        attempt < maxRetries \<longrightarrow>
        retryDecision e attempt maxRetries = Some (Num (2000 * (int attempt + 1)))"
    by (simp add: retryDecision_def)
  show "maxRetries \<le> attempt \<longrightarrow> retryDecision e attempt maxRetries = None"
    by (simp add: retryDecision_def)
  show "err_status e \<noteq> Some 429 \<longrightarrow> (\<forall>s. err_status e = Some s \<longrightarrow> s < 500) \<longrightarrow>
        (err_status e = Some 400 \<longrightarrow> str_or (err_provider_name e) [] = []) \<longrightarrow>
        retryDecision e attempt maxRetries = None"
    by (cases "err_status e") (auto simp: retryDecision_def)
  from withRetry_from_result [of 0 maxRetries fn "[]"]
  obtain k ds where k: "k \<le> maxRetries"
    "fst (withRetry_from fn maxRetries 0 []) = fn k"
    "snd (withRetry_from fn maxRetries 0 []) = ds"
    "length ds = k"
    "\<forall>j. j < k \<longrightarrow> (\<exists>e. fn j = Inl e \<and> retryDecision e j maxRetries = Some (ds ! j))"
    "\<forall>e. fn k = Inl e \<longrightarrow> retryDecision e k maxRetries = None"
    by auto
  then show "\<exists>k\<le>maxRetries.
          fst (withRetry fn maxRetries) = fn k
          \<and> length (snd (withRetry fn maxRetries)) = k
          \<and> (\<forall>j<k. \<exists>e'. fn j = Inl e'
                \<and> retryDecision e' j maxRetries = Some (snd (withRetry fn maxRetries) ! j))
          \<and> (\<forall>e'. fn k = Inl e' \<longrightarrow> retryDecision e' k maxRetries = None)"
    unfolding withRetry_def by (intro exI [of _ k]) simp
qed


theorem withRetry_decision_table_witness:
  "retryDecision ((axios_error 429)\<lparr>err_retry_after := Some ''7''\<rparr>) 1 4 = Some (Num 7000)
   \<and> retryDecision (axios_error 429) 1 4 = Some (Num 6000)
   \<and> retryDecision (axios_error 503) 2 4 = Some (Num 8000)
   \<and> retryDecision ((axios_error 400)\<lparr>err_provider_name := Some ''Together''\<rparr>) 2 4
        = Some (Num 6000)
   \<and> retryDecision (axios_error 503) 4 4 = None
   \<and> retryDecision (axios_error 404) 0 4 = None
   \<and> withRetry (\<lambda>k. if k < 2 then Inl (axios_error 503) else Inr True) 4
        = (Inr True, [Num 2000, Num 4000])
   \<and> fst (withRetry (\<lambda>k. Inl (axios_error 503) :: error + bool) 4) = Inl (axios_error 503)
   \<and> length (snd (withRetry (\<lambda>k. Inl (axios_error 503) :: error + bool) 4)) = 4"
proof -
  let ?e1 = "(axios_error 429)\<lparr>err_retry_after := Some ''7''\<rparr>"
  let ?e2 = "(axios_error 400)\<lparr>err_provider_name := Some ''Together''\<rparr>"
  have p1: "parseInt (str_or (err_retry_after ?e1) ''0'') = Num 7" by code_simp
  have p2: "parseInt (str_or (err_retry_after (axios_error 429)) ''0'') = Num 0" by code_simp
  have 1: "retryDecision ?e1 1 4 = Some (Num 7000)"
    using withRetry_decision_table [where e = ?e1 and attempt = 1 and maxRetries = 4 and fn = "\<lambda>k. Inr True" and secs = 7] p1
    by (simp add: axios_error_def)
  have 2: "retryDecision (axios_error 429) 1 4 = Some (Num 6000)"
    using withRetry_decision_table
      [where e = "axios_error 429" and attempt = 1 and maxRetries = 4 and fn = "\<lambda>k. Inr True" and secs = 0] p2
    by (simp add: axios_error_def)
  have 3: "retryDecision (axios_error 503) 2 4 = Some (Num 8000)"
    using withRetry_decision_table
      [where e = "axios_error 503" and attempt = 2 and maxRetries = 4 and fn = "\<lambda>k. Inr True" and st = 503]
    by (simp add: axios_error_def)
  have 4: "retryDecision ?e2 2 4 = Some (Num 6000)"
    using withRetry_decision_table
      [where e = ?e2 and attempt = 2 and maxRetries = 4 and fn = "\<lambda>k. Inr True" and p = "''Together''"]
    by (simp add: axios_error_def)
  have 5: "retryDecision (axios_error 503) 4 4 = None"
    using withRetry_decision_table [where e = "axios_error 503" and attempt = 4 and maxRetries = 4 and fn = "\<lambda>k. Inr True"]
    by simp
  have 6: "retryDecision (axios_error 404) 0 4 = None"
    using withRetry_decision_table [where e = "axios_error 404" and attempt = 0 and maxRetries = 4 and fn = "\<lambda>k. Inr True"]
    by (simp add: axios_error_def)
  have 7: "withRetry (\<lambda>k. if k < 2 then Inl (axios_error 503) else Inr True) 4
             = (Inr True, [Num 2000, Num 4000])" by code_simp
  have 8: "withRetry (\<lambda>k. Inl (axios_error 503) :: error + bool) 4
             = (Inl (axios_error 503), [Num 2000, Num 4000, Num 8000, Num 16000])" by code_simp
  from 1 2 3 4 5 6 7 8 show ?thesis by simp
qed

text \<open>
  C5.  On status 429 the wrapper does not always wait the larger of the server's
  Retry-After and 3000 * 2^attempt milliseconds.  A Retry-After header may be an HTTP
  date; \<open>parseInt\<close> reads no number from it, \<open>Math.max\<close> of \<open>NaN\<close> and the backoff is
  \<open>NaN\<close>, and the delay handed to the timer is \<open>NaN\<close>: the backoff of 3000 milliseconds
  that the same response without the header gets is lost, and the call is retried.
\<close>

theorem withRetry_date_header_loses_backoff:
  "err_status rate_limited_until_date = Some 429
   \<and> err_retry_after rate_limited_until_date = Some ''Wed, 21 Oct 2015 07:28:00 GMT''
   \<and> parseInt ''Wed, 21 Oct 2015 07:28:00 GMT'' = NaN
   \<and> retryDecision rate_limited_until_date 0 4 = Some NaN
   \<and> retryDecision (axios_error 429) 0 4 = Some (Num 3000)
   \<and> withRetry limited_once 4 = (Inr True, [NaN])"
  by code_simp

section \<open>What one cycle changes\<close>

text \<open>
  For each function of the ingestion: which parts of the world it leaves alone, and of
  which kind its writes are.
\<close>

lemma analyzeNewComment_frame:
  assumes "analyzeNewComment e ci storyHnId storyTitle parentContext row commentText w = (r, w')"
  shows "stories w' = stories w \<and> (\<exists>n. worker w' = (worker w)\<lparr>totalEmbedded := n\<rparr>)
        \<and> (comments w' = comments w \<or>
         (\<exists>a. comments w' = (comments w)[row := Comment_update
                  (commentAnalysisPatch a (normalizeConcepts (ca_concepts a)) (clock e (i_id ci)))
                  (comments w ! row)]))"
  using assms
  unfolding analyzeNewComment_def Let_def bumpEmbedded_def storyUpsert_def commentUpsert_def
  apply (simp split: sum.splits option.splits)
  apply (auto intro: exI [of _ "totalEmbedded (worker w)"])
  done

lemma comment_write_trans:
  "comment_write b c \<Longrightarrow> comment_write a b \<Longrightarrow> comment_write a c"
  by (induction rule: comment_write.induct) (auto intro: comment_write.intros)

lemma processComment_frame:
  assumes "processComment e ci storyHnId storyTitle parentContext w = (ok, w')"
  shows "stories w' = stories w \<and> (\<exists>n. worker w' = (worker w)\<lparr>totalEmbedded := n\<rparr>)
         \<and> comment_write (comments w) (comments w')"
proof (cases "Comment_create e (newComment ci storyHnId) (comments w)")
  case (Inl err)
  with assms have "w' = w" by (simp add: processComment_def)
  then show ?thesis by (auto intro: comment_write.intros exI [of _ "totalEmbedded (worker w)"])
next
  case (Inr p)
  obtain row tbl where p: "p = (row, tbl)" by (cases p)
  with Inr have tbl: "tbl = comments w @ [newComment ci storyHnId]"
    by (auto simp: Comment_create_def split: if_splits option.splits)
  let ?w1 = "w\<lparr>comments := tbl\<rparr>"
  have c1: "comment_write (comments w) (comments ?w1)"
    using tbl by (auto intro: comment_write.intros)
  show ?thesis
  proof (cases "length (stripHtml (i_text ci)) > 30")
    case False
    with assms Inr p have "w' = ?w1" by (simp add: processComment_def Let_def)
    with c1 show ?thesis by (auto intro: exI [of _ "totalEmbedded (worker w)"])
  next
    case True
    obtain r w2 where a: "analyzeNewComment e ci storyHnId storyTitle parentContext row (stripHtml (i_text ci)) ?w1 = (r, w2)"
      by (cases "analyzeNewComment e ci storyHnId storyTitle parentContext row (stripHtml (i_text ci)) ?w1")
    with assms Inr p True have w': "w' = w2"
      by (auto simp: processComment_def Let_def split: option.splits)
    from analyzeNewComment_frame [OF a]
    have f: "stories w2 = stories ?w1" "\<exists>n. worker w2 = (worker ?w1)\<lparr>totalEmbedded := n\<rparr>"
      "comments w2 = comments ?w1 \<or>
         (\<exists>a. comments w2 = (comments ?w1)[row := Comment_update
                  (commentAnalysisPatch a (normalizeConcepts (ca_concepts a)) (clock e (i_id ci)))
                  (comments ?w1 ! row)])" by blast+
    from f(3) c1 have "comment_write (comments w) (comments w2)"
      by (auto intro: comment_write.intros)
    with f w' show ?thesis by simp
  qed
qed


lemma commentsLoop_frame:
  "commentsLoop e item existingSet toProcess cp nc m w = (r, w') \<Longrightarrow>
   stories w' = stories w \<and> (\<exists>n. worker w' = (worker w)\<lparr>totalEmbedded := n\<rparr>)
   \<and> comment_write (comments w) (comments w')"
proof (induction toProcess arbitrary: cp nc m w)
  case Nil
  then show ?case by (auto intro: comment_write.intros exI [of _ "totalEmbedded (worker w)"])
next
  case (Cons ci rest)
  show ?case
  proof (cases "i_id ci \<in> set existingSet")
    case True
    with Cons.prems have "commentsLoop e item existingSet rest (cp + 1) nc m w = (r, w')" by simp
    from Cons.IH [OF this] show ?thesis .
  next
    case False
    note notin = this
    show ?thesis
    proof (cases "batchLimitReached (cfg e) nc")
      case True
      with notin Cons.prems have "w' = w" by simp
      then show ?thesis by (auto intro: comment_write.intros exI [of _ "totalEmbedded (worker w)"])
    next
      case False
      let ?pc = "(case i_parent ci of None \<Rightarrow> None | Some p \<Rightarrow> if p = 0 then None else map_of m p)"
      obtain ok w1 where pc: "processComment e ci (i_id item) (str_or (i_title item) []) ?pc w = (ok, w1)"
        by (cases "processComment e ci (i_id item) (str_or (i_title item) []) ?pc w")
      from processComment_frame [OF pc]
      have f1: "stories w1 = stories w" "\<exists>n. worker w1 = (worker w)\<lparr>totalEmbedded := n\<rparr>"
        "comment_write (comments w) (comments w1)" by blast+
      have "stories w' = stories w1 \<and> (\<exists>n. worker w' = (worker w1)\<lparr>totalEmbedded := n\<rparr>)
            \<and> comment_write (comments w1) (comments w')"
      proof (cases ok)
        case True
        show ?thesis
        proof (cases "dbFault e (CommentFindOne (i_id ci))")
          case (Some err)
          with True notin False pc Cons.prems have "w' = w1" by (simp add: Let_def)
          then show ?thesis
            by (auto intro: comment_write.intros exI [of _ "totalEmbedded (worker w1)"])
        next
          case None
          with True notin False pc Cons.prems
          have "commentsLoop e item existingSet rest (cp + 1) (nc + 1)
                  (learnSummary (i_id ci) (comments w1) m) w1 = (r, w')" by (simp add: Let_def)
          from Cons.IH [OF this] show ?thesis .
        qed
      next
        case False
        with notin \<open>\<not> batchLimitReached (cfg e) nc\<close> pc Cons.prems
        have "commentsLoop e item existingSet rest (cp + 1) nc m w1 = (r, w')" by (simp add: Let_def)
        from Cons.IH [OF this] show ?thesis .
      qed
      with f1 show ?thesis by (auto intro: comment_write_trans)
    qed
  qed
qed

lemma processStoryComments_frame:
  assumes "processStoryComments e item w = (r, w')"
  shows "stories w' = stories w \<and> (\<exists>n. worker w' = (worker w)\<lparr>totalEmbedded := n\<rparr>)
         \<and> comment_write (comments w) (comments w')"
proof -
  have triv: "stories w = stories w \<and> (\<exists>n. worker w = (worker w)\<lparr>totalEmbedded := n\<rparr>)
         \<and> comment_write (comments w) (comments w)"
    by (auto intro: comment_write.intros exI [of _ "totalEmbedded (worker w)"])
  show ?thesis
  proof (cases "i_kids item")
    case None
    with assms have "w' = w" by (simp add: processStoryComments_def)
    with triv show ?thesis by simp
  next
    case (Some kids)
    show ?thesis
    proof (cases "kids = []")
      case True
      with Some assms have "w' = w" by (simp add: processStoryComments_def)
      with triv show ?thesis by simp
    next
      case ne: False
      show ?thesis
      proof (cases "dbFault e CommentFindAll")
        case (Some err)
        with ne \<open>i_kids item = Some kids\<close> assms have "w' = w"
          by (simp add: processStoryComments_def Let_def)
        with triv show ?thesis by simp
      next
        case None
        with ne \<open>i_kids item = Some kids\<close> assms obtain ex tp m where
          "commentsLoop e item ex tp 0 0 m w = (r, w')"
          by (simp add: processStoryComments_def Let_def)
        from commentsLoop_frame [OF this] show ?thesis .
      qed
    qed
  qed
qed

lemma commentsOfStory_frame:
  assumes "commentsOfStory e it r w = (r', w')"
  shows "stories w' = stories w
         \<and> (\<exists>n cp. worker w' = (worker w)\<lparr>totalEmbedded := n, currentlyProcessing := cp\<rparr>)
         \<and> comment_write (comments w) (comments w')
         \<and> r_ingested r' = r_ingested r \<and> r_skipped r' = r_skipped r
         \<and> r_tooOld r' = r_tooOld r \<and> r_errors r' = r_errors r"
proof -
  let ?w1 = "w\<lparr>worker := (worker w)\<lparr>currentlyProcessing :=
                 Some (''comments for: '' @ storyLabel it (i_id it))\<rparr>\<rparr>"
  obtain x w2 where p: "processStoryComments e it ?w1 = (x, w2)"
    by (cases "processStoryComments e it ?w1")
  from processStoryComments_frame [OF p]
  have f: "stories w2 = stories ?w1" "\<exists>n. worker w2 = (worker ?w1)\<lparr>totalEmbedded := n\<rparr>"
    "comment_write (comments ?w1) (comments w2)" by blast+
  from assms p have w': "w' = w2"
    by (auto simp: commentsOfStory_def Let_def split: sum.splits prod.splits)
  from assms p have r': "r_ingested r' = r_ingested r \<and> r_skipped r' = r_skipped r
         \<and> r_tooOld r' = r_tooOld r \<and> r_errors r' = r_errors r"
    by (auto simp: commentsOfStory_def Let_def split: sum.splits prod.splits)
  from f(2) obtain n where "worker w2 = (worker ?w1)\<lparr>totalEmbedded := n\<rparr>" by blast
  then have "worker w2 = (worker w)\<lparr>totalEmbedded := n, currentlyProcessing :=
                 Some (''comments for: '' @ storyLabel it (i_id it))\<rparr>"
    by simp
  then have "\<exists>n cp. worker w2 = (worker w)\<lparr>totalEmbedded := n, currentlyProcessing := cp\<rparr>"
    by blast
  with f w' r' show ?thesis by simp
qed

lemma story_write_trans:
  "story_write ok b c \<Longrightarrow> story_write ok a b \<Longrightarrow> story_write ok a c"
  by (induction rule: story_write.induct) (auto intro: story_write.intros)

lemma story_write_mono:
  "story_write ok a b \<Longrightarrow> (\<And>x. ok x \<Longrightarrow> ok' x) \<Longrightarrow> story_write ok' a b"
  by (induction rule: story_write.induct) (auto intro: story_write.intros)

lemma analyzeNewStory_frame:
  assumes "analyzeNewStory e item row rawText w = (r, w')"
  shows "comments w' = comments w \<and> (\<exists>n. worker w' = (worker w)\<lparr>totalEmbedded := n\<rparr>)
        \<and> (stories w' = stories w \<or>
         (\<exists>a. stories w' = (stories w)[row := Story_update
                  (storyAnalysisPatch a (normalizeConcepts (sa_concepts a)) (clock e (i_id item)))
                  (stories w ! row)]))"
  using assms
  unfolding analyzeNewStory_def Let_def bumpEmbedded_def storyUpsert_def commentUpsert_def
  apply (simp split: sum.splits option.splits)
  apply (auto intro: exI [of _ "totalEmbedded (worker w)"])
  done

lemma tryAnalyzeStory_frame:
  "comments (tryAnalyzeStory e hnId item row w) = comments w
   \<and> (\<exists>n es. worker (tryAnalyzeStory e hnId item row w)
                 = (worker w)\<lparr>totalEmbedded := n, errors := es\<rparr>)
   \<and> (stories (tryAnalyzeStory e hnId item row w) = stories w \<or>
         (\<exists>a. stories (tryAnalyzeStory e hnId item row w) = (stories w)[row := Story_update
                  (storyAnalysisPatch a (normalizeConcepts (sa_concepts a)) (clock e (i_id item)))
                  (stories w ! row)]))"
proof -
  obtain r w1 where a: "analyzeNewStory e item row (stripHtml (i_text item)) w = (r, w1)"
    by (cases "analyzeNewStory e item row (stripHtml (i_text item)) w")
  from analyzeNewStory_frame [OF a] obtain n where
    f: "comments w1 = comments w" "worker w1 = (worker w)\<lparr>totalEmbedded := n\<rparr>"
       "stories w1 = stories w \<or>
         (\<exists>a. stories w1 = (stories w)[row := Story_update
                  (storyAnalysisPatch a (normalizeConcepts (sa_concepts a)) (clock e (i_id item)))
                  (stories w ! row)])" by blast
  show ?thesis
  proof (cases r)
    case None
    with a have "tryAnalyzeStory e hnId item row w = w1" by (simp add: tryAnalyzeStory_def)
    with f show ?thesis by (auto intro!: exI [of _ n] exI [of _ "errors (worker w)"])
  next
    case (Some err)
    with a have "tryAnalyzeStory e hnId item row w
                   = w1\<lparr>worker := pushError (storyErrorEntry hnId err) (worker w1)\<rparr>"
      by (simp add: tryAnalyzeStory_def)
    with f show ?thesis by (auto simp: pushError_def Let_def intro!: exI [of _ n])
  qed
qed

lemma createAndAnalyze_frame:
  assumes "createAndAnalyze e hnId item w = (x, w')"
  shows "comments w' = comments w \<and> story_write (\<lambda>x. x = item) (stories w) (stories w')
         \<and> (\<exists>n cp es. worker w' = (worker w)\<lparr>totalEmbedded := n, currentlyProcessing := cp,
               errors := es,
               totalProcessed := totalProcessed (worker w) + (if isl x then 0 else 1)\<rparr>)
         \<and> (isl x \<or> x = Inr (New, Some item))"
proof -
  let ?w1 = "w\<lparr>worker := (worker w)\<lparr>currentlyProcessing := Some (storyLabel item hnId)\<rparr>\<rparr>"
  show ?thesis
  proof (cases "Story_create e (newStory item) (stories ?w1)")
    case (Inl err)
    with assms have "w' = ?w1" "x = Inl err" by (simp_all add: createAndAnalyze_def Let_def)
    then show ?thesis
      by (auto intro: story_write.intros
          intro!: exI [of _ "totalEmbedded (worker w)"] exI [of _ "errors (worker w)"])
  next
    case (Inr p)
    obtain row tbl where p: "p = (row, tbl)" by (cases p)
    with Inr have tbl: "tbl = stories w @ [newStory item]"
      by (auto simp: Story_create_def split: if_splits option.splits)
    let ?w2 = "?w1\<lparr>stories := tbl\<rparr>"
    have s2: "story_write (\<lambda>x. x = item) (stories w) (stories ?w2)"
      using tbl by (auto intro: story_write.intros)
    define w3 where "w3 = (if length (textForAnalysis item) > 0
                           then tryAnalyzeStory e hnId item row ?w2 else ?w2)"
    from assms Inr p have res: "x = Inr (New, Some item)" "w' = bumpProcessed w3"
      by (simp_all add: createAndAnalyze_def Let_def w3_def)
    have f3: "comments w3 = comments w \<and> story_write (\<lambda>x. x = item) (stories w) (stories w3)
         \<and> (\<exists>n cp es. worker w3 = (worker w)\<lparr>totalEmbedded := n, currentlyProcessing := cp,
               errors := es\<rparr>)"
    proof (cases "length (textForAnalysis item) > 0")
      case False
      then have "w3 = ?w2" by (simp add: w3_def)
      with s2 show ?thesis
        by (auto intro!: exI [of _ "totalEmbedded (worker w)"] exI [of _ "errors (worker w)"])
    next
      case True
      then have w3: "w3 = tryAnalyzeStory e hnId item row ?w2" by (simp add: w3_def)
      from tryAnalyzeStory_frame [of e hnId item row ?w2] obtain n es where
        f: "comments w3 = comments ?w2"
           "worker w3 = (worker ?w2)\<lparr>totalEmbedded := n, errors := es\<rparr>"
           "stories w3 = stories ?w2 \<or>
             (\<exists>a. stories w3 = (stories ?w2)[row := Story_update
                  (storyAnalysisPatch a (normalizeConcepts (sa_concepts a)) (clock e (i_id item)))
                  (stories ?w2 ! row)])"
        unfolding w3 by blast
      from f(3) s2 have sw: "story_write (\<lambda>x. x = item) (stories w) (stories w3)"
        by (auto intro: story_write.intros)
      from f(2) have "worker w3 = (worker w)\<lparr>totalEmbedded := n,
               currentlyProcessing := Some (storyLabel item hnId), errors := es\<rparr>" by simp
      then have "\<exists>n cp es. worker w3 = (worker w)\<lparr>totalEmbedded := n, currentlyProcessing := cp,
               errors := es\<rparr>" by blast
      with f(1) sw show ?thesis by simp
    qed
    then obtain n cp es where "worker w3 = (worker w)\<lparr>totalEmbedded := n, currentlyProcessing := cp,
               errors := es\<rparr>" by blast
    then have "worker (bumpProcessed w3) = (worker w)\<lparr>totalEmbedded := n, currentlyProcessing := cp,
               errors := es, totalProcessed := totalProcessed (worker w) + 1\<rparr>"
      by (simp add: bumpProcessed_def)
    then have "\<exists>n cp es. worker (bumpProcessed w3) = (worker w)\<lparr>totalEmbedded := n,
               currentlyProcessing := cp, errors := es,
               totalProcessed := totalProcessed (worker w) + 1\<rparr>" by blast
    with f3 res show ?thesis by (simp add: bumpProcessed_def)
  qed
qed


lemma worker_same_frame:
  "\<exists>n cp es. worker w = (worker w)\<lparr>totalEmbedded := n, currentlyProcessing := cp,
               errors := es, totalProcessed := totalProcessed (worker w) + 0\<rparr>"
  by (intro exI [of _ "totalEmbedded (worker w)"] exI [of _ "currentlyProcessing (worker w)"]
        exI [of _ "errors (worker w)"]) simp

lemma processStoryOnly_frame:
  assumes "processStoryOnly e hnId w = (x, w')"
  shows "comments w' = comments w \<and> story_write (fresh_story e) (stories w) (stories w')
         \<and> (\<exists>n cp es. worker w' = (worker w)\<lparr>totalEmbedded := n, currentlyProcessing := cp,
               errors := es,
               totalProcessed := totalProcessed (worker w)
                  + (if \<exists>it. x = Inr (New, it) then 1 else 0)\<rparr>)"
proof -
  have same: "w' = w \<Longrightarrow> \<not> (\<exists>it. x = Inr (New, it)) \<Longrightarrow> ?thesis"
    using worker_same_frame [of w] by (auto intro: story_write.intros)
  show ?thesis
  proof (cases "dbFault e (StoryFindOne hnId)")
    case (Some err)
    with assms have "w' = w" "x = Inl err" by (simp_all add: processStoryOnly_def)
    then show ?thesis by (intro same) auto
  next
    case None
    note nofault = this
    let ?ex = "find_row (\<lambda>r. s_hnId r = hnId) (stories w)"
    show ?thesis
    proof (cases "fetchItem e hnId")
      case None
      with nofault assms have "w' = w" "x = Inr (if ?ex \<noteq> None then Cached else ErrorResult, None)"
        by (auto simp: processStoryOnly_def Let_def)
      then show ?thesis by (intro same) auto
    next
      case (Some item)
      note item = this
      show ?thesis
      proof (cases "i_type item \<noteq> ''story''")
        case True
        with nofault item assms
        have "w' = w" "x = Inr (if ?ex \<noteq> None then Cached else ErrorResult, None)"
          by (auto simp: processStoryOnly_def Let_def)
        then show ?thesis by (intro same) auto
      next
        case False
        note story = this
        show ?thesis
        proof (cases "isRecent (cfg e) (clock e hnId) (i_time item)")
          case False
          with nofault item story assms have "w' = w" "x = Inr (TooOld, Some item)"
            by (simp_all add: processStoryOnly_def Let_def)
          then show ?thesis by (intro same) auto
        next
          case True
          note recent = this
          show ?thesis
          proof (cases ?ex)
            case None
            with nofault item story recent assms
            have c: "createAndAnalyze e hnId item w = (x, w')"
              by (simp add: processStoryOnly_def Let_def)
            have fresh: "fresh_story e item"
              using item story recent by (auto simp: fresh_story_def)
            from createAndAnalyze_frame [OF c] obtain n cp es where
              f0: "story_write (\<lambda>x. x = item) (stories w) (stories w')" and
              f: "comments w' = comments w"
                 "worker w' = (worker w)\<lparr>totalEmbedded := n, currentlyProcessing := cp,
                    errors := es,
                    totalProcessed := totalProcessed (worker w) + (if isl x then 0 else 1)\<rparr>"
                 "isl x \<or> x = Inr (New, Some item)" by blast
            from f0 have f2: "story_write (fresh_story e) (stories w) (stories w')"
              by (rule story_write_mono) (simp add: fresh)
            have "(if isl x then 0 else 1) = (if \<exists>it. x = Inr (New, it) then 1 else (0::nat))"
              using f(3) by (cases x) auto
            with f(2) have "worker w' = (worker w)\<lparr>totalEmbedded := n, currentlyProcessing := cp,
                    errors := es,
                    totalProcessed := totalProcessed (worker w)
                      + (if \<exists>it. x = Inr (New, it) then 1 else 0)\<rparr>" by simp
            with f(1) f2 show ?thesis by blast
          next
            case (Some i)
            show ?thesis
            proof (cases "dbFault e (StoryUpdate hnId)")
              case (Some err)
              with \<open>?ex = Some i\<close> nofault item story recent assms
              have "w' = w" "x = Inl err" by (simp_all add: processStoryOnly_def Let_def)
              then show ?thesis by (intro same) auto
            next
              case None
              with \<open>?ex = Some i\<close> nofault item story recent assms
              have r: "x = Inr (Cached, Some item)"
                "w' = w\<lparr>stories := (stories w)
                        [i := Story_update (storyRefreshPatch item (stories w ! i)) (stories w ! i)]\<rparr>"
                by (simp_all add: processStoryOnly_def Let_def)
              have "story_write (fresh_story e) (stories w) (stories w')"
                unfolding r by (auto intro: story_write.intros)
              with r worker_same_frame [of w] show ?thesis by auto
            qed
          qed
        qed
      qed
    qed
  qed
qed

lemma candidateTurn_frame:
  assumes "candidateTurn e hnId r w = (r', w')"
  shows "story_write (fresh_story e) (stories w) (stories w') \<and> comment_write (comments w) (comments w')
         \<and> (\<exists>n cp es. worker w' = (worker w)\<lparr>totalEmbedded := n, currentlyProcessing := cp,
               errors := es,
               totalProcessed := totalProcessed (worker w) + 1 + (r_ingested r' - r_ingested r),
               cycleCurrent := cycleCurrent (worker w) + 1\<rparr>)
         \<and> r_ingested r \<le> r_ingested r'
         \<and> r_ingested r' + r_skipped r' + r_tooOld r' + r_errors r'
             = r_ingested r + r_skipped r + r_tooOld r + r_errors r + 1"
proof -
  let ?w1 = "w\<lparr>worker := (worker w)\<lparr>cycleCurrent := cycleCurrent (worker w) + 1\<rparr>\<rparr>"
  obtain x w2 where p: "processStoryOnly e hnId ?w1 = (x, w2)"
    by (cases "processStoryOnly e hnId ?w1")
  from processStoryOnly_frame [OF p] obtain n cp es where
    f: "comments w2 = comments w" "story_write (fresh_story e) (stories w) (stories w2)"
       "worker w2 = (worker ?w1)\<lparr>totalEmbedded := n, currentlyProcessing := cp,
               errors := es,
               totalProcessed := totalProcessed (worker ?w1)
                  + (if \<exists>it. x = Inr (New, it) then 1 else 0)\<rparr>" by auto
  show ?thesis
  proof (cases x)
    case (Inl err)
    with assms p have r: "r' = r\<lparr>r_errors := r_errors r + 1\<rparr>" "w' = bumpProcessed w2"
      by (simp_all add: candidateTurn_def Let_def)
    from f(3) Inl have "worker w' = (worker w)\<lparr>totalEmbedded := n, currentlyProcessing := cp,
               errors := es,
               totalProcessed := totalProcessed (worker w) + 1 + (r_ingested r' - r_ingested r),
               cycleCurrent := cycleCurrent (worker w) + 1\<rparr>"
      unfolding r by (simp add: bumpProcessed_def)
    then have "\<exists>n cp es. worker w' = (worker w)\<lparr>totalEmbedded := n, currentlyProcessing := cp,
               errors := es,
               totalProcessed := totalProcessed (worker w) + 1 + (r_ingested r' - r_ingested r),
               cycleCurrent := cycleCurrent (worker w) + 1\<rparr>" by blast
    moreover have "comments w' = comments w" "stories w' = stories w2"
      unfolding r using f(1) by (simp_all add: bumpProcessed_def)
    ultimately show ?thesis using f(2) r(1) by (auto intro: comment_write.intros)
  next
    case (Inr q)
    obtain result item where q: "q = (result, item)" by (cases q)
    let ?r1 = "count_result result r"
    let ?w3 = "bumpProcessed w2"
    have cnt: "r_ingested ?r1 = r_ingested r + (if result = New then 1 else 0)"
      "r_ingested ?r1 + r_skipped ?r1 + r_tooOld ?r1 + r_errors ?r1
             = r_ingested r + r_skipped r + r_tooOld r + r_errors r + 1"
      by (cases result; simp add: count_result_def)+
    have new: "(\<exists>it. x = Inr (New, it)) = (result = New)" using Inr q by auto
    from f(3) have w3: "worker ?w3 = (worker w)\<lparr>totalEmbedded := n, currentlyProcessing := cp,
               errors := es,
               totalProcessed := totalProcessed (worker w) + 1 + (r_ingested ?r1 - r_ingested r),
               cycleCurrent := cycleCurrent (worker w) + 1\<rparr>"
      unfolding new cnt by (simp add: bumpProcessed_def)
    have s3: "stories ?w3 = stories w2" "comments ?w3 = comments w"
      using f(1) by (simp_all add: bumpProcessed_def)
    show ?thesis
    proof (cases "item \<noteq> None \<and> (result = New \<or> result = Cached)")
      case False
      with assms p Inr q have r: "r' = ?r1" "w' = ?w3"
        by (auto simp: candidateTurn_def Let_def split: option.splits)
      from w3 have "\<exists>n cp es. worker ?w3 = (worker w)\<lparr>totalEmbedded := n, currentlyProcessing := cp,
               errors := es,
               totalProcessed := totalProcessed (worker w) + 1 + (r_ingested ?r1 - r_ingested r),
               cycleCurrent := cycleCurrent (worker w) + 1\<rparr>" by blast
      with s3 f(2) cnt show ?thesis unfolding r by (auto intro: comment_write.intros)
    next
      case True
      then obtain it where it: "item = Some it" by auto
      with True assms p Inr q have c: "commentsOfStory e it ?r1 ?w3 = (r', w')"
        by (auto simp: candidateTurn_def Let_def)
      from commentsOfStory_frame [OF c] obtain n' cp' where
        g: "stories w' = stories ?w3"
           "worker w' = (worker ?w3)\<lparr>totalEmbedded := n', currentlyProcessing := cp'\<rparr>"
           "comment_write (comments ?w3) (comments w')"
           "r_ingested r' = r_ingested ?r1" "r_skipped r' = r_skipped ?r1"
           "r_tooOld r' = r_tooOld ?r1" "r_errors r' = r_errors ?r1" by blast
      from g(2) w3 have "worker w' = (worker w)\<lparr>totalEmbedded := n', currentlyProcessing := cp',
               errors := es,
               totalProcessed := totalProcessed (worker w) + 1 + (r_ingested r' - r_ingested r),
               cycleCurrent := cycleCurrent (worker w) + 1\<rparr>"
        unfolding g(4) by simp
      then have "\<exists>n cp es. worker w' = (worker w)\<lparr>totalEmbedded := n, currentlyProcessing := cp,
               errors := es,
               totalProcessed := totalProcessed (worker w) + 1 + (r_ingested r' - r_ingested r),
               cycleCurrent := cycleCurrent (worker w) + 1\<rparr>" by blast
      with g s3 f(2) cnt show ?thesis by simp
    qed
  qed
qed


lemma storiesLoop_frame:
  "storiesLoop e ids r w = (r', w') \<Longrightarrow>
   story_write (fresh_story e) (stories w) (stories w') \<and> comment_write (comments w) (comments w')
   \<and> (\<exists>n cp es. worker w' = (worker w)\<lparr>totalEmbedded := n, currentlyProcessing := cp,
         errors := es,
         totalProcessed := totalProcessed (worker w) + length ids + (r_ingested r' - r_ingested r),
         cycleCurrent := cycleCurrent (worker w) + length ids\<rparr>)
   \<and> r_ingested r \<le> r_ingested r'
   \<and> r_ingested r' + r_skipped r' + r_tooOld r' + r_errors r'
       = r_ingested r + r_skipped r + r_tooOld r + r_errors r + length ids"
proof (induction ids arbitrary: r w)
  case Nil
  then have "r' = r" "w' = w" by simp_all
  moreover have "\<exists>n cp es. worker w = (worker w)\<lparr>totalEmbedded := n,
      currentlyProcessing := cp, errors := es\<rparr>"
    by (intro exI [of _ "totalEmbedded (worker w)"] exI [of _ "currentlyProcessing (worker w)"]
          exI [of _ "errors (worker w)"]) simp
  ultimately show ?case by (auto intro: story_write.intros comment_write.intros)
next
  case (Cons hnId rest)
  obtain r1 w1 where t: "candidateTurn e hnId r w = (r1, w1)"
    by (cases "candidateTurn e hnId r w")
  with Cons.prems have l: "storiesLoop e rest r1 w1 = (r', w')" by simp
  from candidateTurn_frame [OF t] obtain n cp es where
    f: "story_write (fresh_story e) (stories w) (stories w1)" "comment_write (comments w) (comments w1)"
       "worker w1 = (worker w)\<lparr>totalEmbedded := n, currentlyProcessing := cp,
               errors := es,
               totalProcessed := totalProcessed (worker w) + 1 + (r_ingested r1 - r_ingested r),
               cycleCurrent := cycleCurrent (worker w) + 1\<rparr>"
       "r_ingested r \<le> r_ingested r1"
       "r_ingested r1 + r_skipped r1 + r_tooOld r1 + r_errors r1
             = r_ingested r + r_skipped r + r_tooOld r + r_errors r + 1" by blast
  from Cons.IH [OF l] obtain n' cp' es' where
    g: "story_write (fresh_story e) (stories w1) (stories w')" "comment_write (comments w1) (comments w')"
       "worker w' = (worker w1)\<lparr>totalEmbedded := n', currentlyProcessing := cp',
         errors := es',
         totalProcessed := totalProcessed (worker w1) + length rest + (r_ingested r' - r_ingested r1),
         cycleCurrent := cycleCurrent (worker w1) + length rest\<rparr>"
       "r_ingested r1 \<le> r_ingested r'"
       "r_ingested r' + r_skipped r' + r_tooOld r' + r_errors r'
         = r_ingested r1 + r_skipped r1 + r_tooOld r1 + r_errors r1 + length rest" by blast
  have "worker w' = (worker w)\<lparr>totalEmbedded := n', currentlyProcessing := cp',
         errors := es',
         totalProcessed := totalProcessed (worker w) + length (hnId # rest)
            + (r_ingested r' - r_ingested r),
         cycleCurrent := cycleCurrent (worker w) + length (hnId # rest)\<rparr>"
    using g(3) f(3) f(4) g(4) by simp
  then have "\<exists>n cp es. worker w' = (worker w)\<lparr>totalEmbedded := n, currentlyProcessing := cp,
         errors := es,
         totalProcessed := totalProcessed (worker w) + length (hnId # rest)
            + (r_ingested r' - r_ingested r),
         cycleCurrent := cycleCurrent (worker w) + length (hnId # rest)\<rparr>" by blast
  moreover have "story_write (fresh_story e) (stories w) (stories w')"
    using f(1) g(1) by (rule story_write_trans [rotated])
  moreover have "comment_write (comments w) (comments w')"
    using f(2) g(2) by (rule comment_write_trans [rotated])
  ultimately show ?case using f(4,5) g(4,5) by simp
qed

lemma runIngestionCycle_frame:
  assumes "runIngestionCycle e w = (x, w')"
  shows "story_write (fresh_story e) (stories w) (stories w') \<and> comment_write (comments w) (comments w')"
proof (cases "\<exists>topIds newIds. fetchTopStoryIds e = Inr topIds \<and> fetchNewStoryIds e = Inr newIds")
  case False
  with assms have "w' = w"
    by (auto simp: runIngestionCycle_def split: sum.splits)
  then show ?thesis by (auto intro: story_write.intros comment_write.intros)
next
  case True
  then obtain topIds newIds where
    ids: "fetchTopStoryIds e = Inr topIds" "fetchNewStoryIds e = Inr newIds" by blast
  let ?tp = "candidates e topIds newIds"
  let ?w0 = "w\<lparr>worker := (worker w)\<lparr>cycleTotal := length ?tp, cycleCurrent := 0,
                                               cyclePhase := Some ''stories+comments''\<rparr>\<rparr>"
  obtain r w1 where l: "storiesLoop e ?tp no_result ?w0 = (r, w1)"
    by (cases "storiesLoop e ?tp no_result ?w0")
  with assms ids have "w' = w1" by (simp add: runIngestionCycle_def Let_def)
  with storiesLoop_frame [OF l] show ?thesis by simp
qed

lemma list_all_update: "list_all P xs \<Longrightarrow> P x \<Longrightarrow> list_all P (xs[i := x])"
  using set_update_subset_insert [of xs i x] by (auto simp: list_all_iff)

lemma story_write_preserves:
  assumes "story_write ok tbl tbl'"
    and "list_all P tbl"
    and "\<And>item. P (newStory item)"
    and "\<And>s item. P s \<Longrightarrow> P (Story_update (storyRefreshPatch item s) s)"
    and "\<And>s a now. P s \<Longrightarrow>
           P (Story_update (storyAnalysisPatch a (normalizeConcepts (sa_concepts a)) now) s)"
  shows "list_all P tbl'"
  using assms(1)
proof (induction rule: story_write.induct)
  case sw_refl then show ?case using assms(2) by simp
next
  case (sw_create tbl' item)
  then show ?case using assms(3) by simp
next
  case (sw_refresh tbl' row item)
  show ?case
  proof (cases "row < length tbl'")
    case True
    with sw_refresh.IH have "P (tbl' ! row)" by (simp add: list_all_length)
    then have "P (Story_update (storyRefreshPatch item (tbl' ! row)) (tbl' ! row))"
      by (rule assms(4))
    with sw_refresh.IH show ?thesis by (rule list_all_update)
  next
    case False
    then have "length tbl' \<le> row" by simp
    with sw_refresh.IH show ?thesis by (simp add: list_update_beyond)
  qed
next
  case (sw_analyzed tbl' row a now)
  show ?case
  proof (cases "row < length tbl'")
    case True
    with sw_analyzed.IH have "P (tbl' ! row)" by (simp add: list_all_length)
    then have "P (Story_update (storyAnalysisPatch a (normalizeConcepts (sa_concepts a)) now) (tbl' ! row))"
      by (rule assms(5))
    with sw_analyzed.IH show ?thesis by (rule list_all_update)
  next
    case False
    then have "length tbl' \<le> row" by simp
    with sw_analyzed.IH show ?thesis by (simp add: list_update_beyond)
  qed
qed

lemma comment_write_preserves:
  assumes "comment_write tbl tbl'"
    and "list_all Q tbl"
    and "\<And>ci sid. Q (newComment ci sid)"
    and "\<And>c a now. Q c \<Longrightarrow>
           Q (Comment_update (commentAnalysisPatch a (normalizeConcepts (ca_concepts a)) now) c)"
  shows "list_all Q tbl'"
  using assms(1)
proof (induction rule: comment_write.induct)
  case cw_refl then show ?case using assms(2) by simp
next
  case (cw_create tbl' ci sid)
  then show ?case using assms(3) by simp
next
  case (cw_analyzed tbl' row a now)
  show ?case
  proof (cases "row < length tbl'")
    case True
    with cw_analyzed.IH have "Q (tbl' ! row)" by (simp add: list_all_length)
    then have "Q (Comment_update (commentAnalysisPatch a (normalizeConcepts (ca_concepts a)) now) (tbl' ! row))"
      by (rule assms(4))
    with cw_analyzed.IH show ?thesis by (rule list_all_update)
  next
    case False
    then have "length tbl' \<le> row" by simp
    with cw_analyzed.IH show ?thesis by (simp add: list_update_beyond)
  qed
qed

lemma candidateTurn_ingested:
  assumes "candidateTurn e hnId r w = (r', w')"
  shows "r_ingested r' = r_ingested r \<or> r_ingested r' = r_ingested r + 1"
proof -
  let ?w1 = "w\<lparr>worker := (worker w)\<lparr>cycleCurrent := cycleCurrent (worker w) + 1\<rparr>\<rparr>"
  obtain x w2 where p: "processStoryOnly e hnId ?w1 = (x, w2)"
    by (cases "processStoryOnly e hnId ?w1")
  show ?thesis
  proof (cases x)
    case (Inl err)
    with assms p show ?thesis by (auto simp: candidateTurn_def Let_def)
  next
    case (Inr q)
    obtain result item where q: "q = (result, item)" by (cases q)
    have cnt: "r_ingested (count_result result r) = r_ingested r
               \<or> r_ingested (count_result result r) = r_ingested r + 1"
      by (cases result; simp add: count_result_def)
    show ?thesis
    proof (cases "item \<noteq> None \<and> (result = New \<or> result = Cached)")
      case False
      with assms p Inr q have "r' = count_result result r"
        by (auto simp: candidateTurn_def Let_def split: option.splits)
      with cnt show ?thesis by simp
    next
      case True
      then obtain it where "item = Some it" by auto
      with True assms p Inr q
      have "commentsOfStory e it (count_result result r) (bumpProcessed w2) = (r', w')"
        by (auto simp: candidateTurn_def Let_def)
      from commentsOfStory_frame [OF this] cnt show ?thesis by simp
    qed
  qed
qed

text \<open>
  C10.  One cycle adds to \<open>workerState.totalProcessed\<close> the number of candidates plus the
  number of stories classified as new: the turn of a candidate adds one, and one more when
  the story is new.  (The four classifications partition the candidates.)
\<close>

theorem totalProcessed_counts_new_stories_twice:
  assumes "fetchTopStoryIds e = Inr topIds" and "fetchNewStoryIds e = Inr newIds"
    and "runIngestionCycle e w = (x, w')"
    and "candidateTurn e hnId r0 w0 = (r1, w1)"
  shows "(\<exists>r. x = Inr r
          \<and> totalProcessed (worker w')
              = totalProcessed (worker w) + length (candidates e topIds newIds) + r_ingested r
          \<and> r_ingested r + r_skipped r + r_tooOld r + r_errors r
              = length (candidates e topIds newIds))
    \<and> totalProcessed (worker w1)
           = totalProcessed (worker w0) + (if r_ingested r1 = r_ingested r0 + 1 then 2 else 1)"
proof (rule conjI)
  let ?tp = "candidates e topIds newIds"
  let ?w0 = "w\<lparr>worker := (worker w)\<lparr>cycleTotal := length ?tp, cycleCurrent := 0,
                                               cyclePhase := Some ''stories+comments''\<rparr>\<rparr>"
  obtain r w2 where l: "storiesLoop e ?tp no_result ?w0 = (r, w2)"
    by (cases "storiesLoop e ?tp no_result ?w0")
  with assms(1-3) have res: "x = Inr r" "w' = w2" by (simp_all add: runIngestionCycle_def Let_def)
  from storiesLoop_frame [OF l] obtain n cp es where
    f: "worker w2 = (worker ?w0)\<lparr>totalEmbedded := n, currentlyProcessing := cp,
         errors := es,
         totalProcessed := totalProcessed (worker ?w0) + length ?tp
            + (r_ingested r - r_ingested no_result),
         cycleCurrent := cycleCurrent (worker ?w0) + length ?tp\<rparr>"
       "r_ingested r + r_skipped r + r_tooOld r + r_errors r
          = r_ingested no_result + r_skipped no_result + r_tooOld no_result + r_errors no_result
            + length ?tp" by blast
  from f(1) have "totalProcessed (worker w2)
                    = totalProcessed (worker w) + length ?tp + r_ingested r"
    by (simp add: no_result_def)
  moreover from f(2) have "r_ingested r + r_skipped r + r_tooOld r + r_errors r = length ?tp"
    by (simp add: no_result_def)
  ultimately show "\<exists>r. x = Inr r
          \<and> totalProcessed (worker w')
              = totalProcessed (worker w) + length (candidates e topIds newIds) + r_ingested r
          \<and> r_ingested r + r_skipped r + r_tooOld r + r_errors r
              = length (candidates e topIds newIds)"
    using res by simp
next
  from candidateTurn_frame [OF assms(4)] obtain n cp es where
    "worker w1 = (worker w0)\<lparr>totalEmbedded := n, currentlyProcessing := cp,
               errors := es,
               totalProcessed := totalProcessed (worker w0) + 1 + (r_ingested r1 - r_ingested r0),
               cycleCurrent := cycleCurrent (worker w0) + 1\<rparr>" by blast
  then have "totalProcessed (worker w1)
               = totalProcessed (worker w0) + 1 + (r_ingested r1 - r_ingested r0)" by simp
  with candidateTurn_ingested [OF assms(4)]
  show "totalProcessed (worker w1)
           = totalProcessed (worker w0) + (if r_ingested r1 = r_ingested r0 + 1 then 2 else 1)"
    by auto
qed

theorem totalProcessed_counts_new_stories_twice_witness:
  "fetchTopStoryIds sample_env = Inr [101, 202] \<and> fetchNewStoryIds sample_env = Inr [202, 101]
   \<and> candidates sample_env [101, 202] [202, 101] = [101, 202]
   \<and> fst (runIngestionCycle sample_env empty_world)
        = Inr \<lparr>r_ingested = 1, r_skipped = 0, r_tooOld = 1, r_errors = 0,
                r_commentsProcessed = 1, r_newComments = 1\<rparr>
   \<and> totalProcessed (worker (snd (runIngestionCycle sample_env empty_world))) = 3
   \<and> totalProcessed (worker (snd (candidateTurn sample_env 101 no_result empty_world))) = 2
   \<and> totalProcessed (worker (snd (candidateTurn sample_env 202 no_result empty_world))) = 1"
proof -
  have a: "fetchTopStoryIds sample_env = Inr [101, 202]" by (simp add: sample_env_def)
  have b: "fetchNewStoryIds sample_env = Inr [202, 101]" by (simp add: sample_env_def)
  have c: "candidates sample_env [101, 202] [202, 101] = [101, 202]" by code_simp
  have d: "fst (runIngestionCycle sample_env empty_world)
        = Inr \<lparr>r_ingested = 1, r_skipped = 0, r_tooOld = 1, r_errors = 0,
                r_commentsProcessed = 1, r_newComments = 1\<rparr>" by code_simp
  have t1: "r_ingested (fst (candidateTurn sample_env 101 no_result empty_world)) = 1" by code_simp
  have t2: "r_ingested (fst (candidateTurn sample_env 202 no_result empty_world)) = 0" by code_simp
  have z: "totalProcessed (worker empty_world) = 0" "r_ingested no_result = 0"
    by (simp_all add: empty_world_def sample_worker_def no_result_def)
  have run: "runIngestionCycle sample_env empty_world
               = (fst (runIngestionCycle sample_env empty_world),
                  snd (runIngestionCycle sample_env empty_world))" by simp
  have turn1: "candidateTurn sample_env 101 no_result empty_world
               = (fst (candidateTurn sample_env 101 no_result empty_world),
                  snd (candidateTurn sample_env 101 no_result empty_world))" by simp
  have turn2: "candidateTurn sample_env 202 no_result empty_world
               = (fst (candidateTurn sample_env 202 no_result empty_world),
                  snd (candidateTurn sample_env 202 no_result empty_world))" by simp
  from totalProcessed_counts_new_stories_twice [OF a b run turn1, THEN conjunct1] c d z
  have 1: "totalProcessed (worker (snd (runIngestionCycle sample_env empty_world))) = 3" by auto
  from totalProcessed_counts_new_stories_twice [OF a b run turn1, THEN conjunct2] t1 z
  have 2: "totalProcessed (worker (snd (candidateTurn sample_env 101 no_result empty_world))) = 2"
    by simp
  from totalProcessed_counts_new_stories_twice [OF a b run turn2, THEN conjunct2] t2 z
  have 3: "totalProcessed (worker (snd (candidateTurn sample_env 202 no_result empty_world))) = 1"
    by simp
  from a b c d 1 2 3 show ?thesis by simp
qed

lemma pushError_last: "last (errors (pushError msg st)) = msg \<and> msg \<in> set (errors (pushError msg st))
   \<and> length (errors (pushError msg st)) \<le> max 50 (length (errors st))"
proof -
  let ?es = "errors st @ [msg]"
  show ?thesis
  proof (cases "length ?es > 50")
    case False
    then show ?thesis by (simp add: pushError_def Let_def)
  next
    case True
    then have ne: "tl ?es \<noteq> []" by (cases "errors st") auto
    then have "last (tl ?es) = msg" by (simp add: last_tl)
    moreover have "msg \<in> set (tl ?es)" using ne calculation last_in_set by metis
    ultimately show ?thesis using True by (simp add: pushError_def Let_def)
  qed
qed

lemma storiesLoop_turns:
  "cycleCurrent (worker (snd (storiesLoop e ids r w))) = cycleCurrent (worker w) + length ids"
proof -
  obtain r' w' where l: "storiesLoop e ids r w = (r', w')" by (cases "storiesLoop e ids r w")
  from storiesLoop_frame [OF l] obtain n cp es where
    "worker w' = (worker w)\<lparr>totalEmbedded := n, currentlyProcessing := cp,
         errors := es,
         totalProcessed := totalProcessed (worker w) + length ids + (r_ingested r' - r_ingested r),
         cycleCurrent := cycleCurrent (worker w) + length ids\<rparr>" by blast
  with l show ?thesis by simp
qed

text \<open>
  C7.  A new story (not in the store, fetched, of type story, recent, its row created, its
  text not empty) whose analysis call fails: \<open>processStoryOnly\<close> still returns \<open>new\<close> and
  throws nothing; the row created for the story is in the table with \<open>embedded = false\<close>
  and no analysis version; the entry \<open>story <id>: <message>\<close> is the last of the error ring.
  In the cycle the story counts as ingested, not as an error, its turn goes on to its
  comments and the loop continues with the remaining candidates: in every cycle each
  candidate gets its turn.
\<close>

theorem analysis_failure_is_contained:
  assumes nofault: "dbFault e (StoryFindOne hnId) = None"
    and new: "find_row (\<lambda>r. s_hnId r = hnId) (stories w) = None"
    and item: "fetchItem e hnId = Some item" "i_type item = ''story''"
    and recent: "isRecent (cfg e) (clock e hnId) (i_time item)"
    and created: "Story_create e (newStory item) (stories w) = Inr (row, tbl)"
    and nonempty: "length (textForAnalysis item) > 0"
    and fails: "analyzeStory e (str_or (i_title item) []) (stripHtml (i_text item))
                  (str_or_null (i_url item)) = Inl err"
  shows "\<exists>w1. processStoryOnly e hnId w = (Inr (New, Some item), w1)
           \<and> stories w1 = stories w @ [newStory item]
           \<and> s_hnId (last (stories w1)) = i_id item
           \<and> \<not> s_embedded (last (stories w1)) \<and> s_analysisVersion (last (stories w1)) = None
           \<and> errors (worker w1) = errors (pushError (storyErrorEntry hnId err) (worker w))
           \<and> last (errors (worker w1))
                = ''story '' @ show_int hnId @ '': '' @ or_str (err_message err) ''unknown''
           \<and> storiesLoop e (hnId # rest) r w
                = storiesLoop e rest (fst (candidateTurn e hnId r w)) (snd (candidateTurn e hnId r w))
           \<and> r_ingested (fst (candidateTurn e hnId r w)) = r_ingested r + 1
           \<and> r_errors (fst (candidateTurn e hnId r w)) = r_errors r
           \<and> cycleCurrent (worker (snd (storiesLoop e (hnId # rest) r w)))
                = cycleCurrent (worker w) + 1 + length rest"
proof -
  have core: "processStoryOnly e hnId v
              = (Inr (New, Some item),
                 bumpProcessed (v\<lparr>stories := stories v @ [newStory item],
                    worker := pushError (storyErrorEntry hnId err)
                                ((worker v)\<lparr>currentlyProcessing := Some (storyLabel item hnId)\<rparr>)\<rparr>))"
    if v: "stories v = stories w" for v
  proof -
    from created have tbl: "tbl = stories w @ [newStory item]" "row = length (stories w)"
      by (auto simp: Story_create_def split: if_splits option.splits)
    let ?v1 = "v\<lparr>worker := (worker v)\<lparr>currentlyProcessing := Some (storyLabel item hnId)\<rparr>\<rparr>"
    let ?v2 = "?v1\<lparr>stories := tbl\<rparr>"
    have a: "analyzeNewStory e item row (stripHtml (i_text item)) ?v2 = (Some err, ?v2)"
      using fails by (simp add: analyzeNewStory_def)
    have t: "tryAnalyzeStory e hnId item row ?v2
               = ?v2\<lparr>worker := pushError (storyErrorEntry hnId err) (worker ?v2)\<rparr>"
      using a by (simp add: tryAnalyzeStory_def)
    have c: "createAndAnalyze e hnId item v
               = (Inr (New, Some item),
                  bumpProcessed (?v2\<lparr>worker := pushError (storyErrorEntry hnId err) (worker ?v2)\<rparr>))"
      using created nonempty t v by (simp add: createAndAnalyze_def Let_def)
    have "processStoryOnly e hnId v = createAndAnalyze e hnId item v"
      using nofault new item recent v by (simp add: processStoryOnly_def Let_def)
    with c tbl v show ?thesis by simp
  qed
  let ?w1 = "bumpProcessed (w\<lparr>stories := stories w @ [newStory item],
                    worker := pushError (storyErrorEntry hnId err)
                                ((worker w)\<lparr>currentlyProcessing := Some (storyLabel item hnId)\<rparr>)\<rparr>)"
  have p: "processStoryOnly e hnId w = (Inr (New, Some item), ?w1)" using core [of w] by simp
  have s1: "stories ?w1 = stories w @ [newStory item]" by (simp add: bumpProcessed_def)
  have e1: "errors (worker ?w1) = errors (pushError (storyErrorEntry hnId err) (worker w))"
    by (simp add: bumpProcessed_def pushError_def Let_def)
  have l1: "last (errors (worker ?w1))
              = ''story '' @ show_int hnId @ '': '' @ or_str (err_message err) ''unknown''"
    unfolding e1 using pushError_last [of "storyErrorEntry hnId err" "worker w"]
    by (simp add: storyErrorEntry_def)
  let ?v = "w\<lparr>worker := (worker w)\<lparr>cycleCurrent := cycleCurrent (worker w) + 1\<rparr>\<rparr>"
  obtain v2 where pv: "processStoryOnly e hnId ?v = (Inr (New, Some item), v2)"
    using core [of ?v] by simp
  obtain r' w' where ct: "candidateTurn e hnId r w = (r', w')" by (cases "candidateTurn e hnId r w")
  with pv have "commentsOfStory e item (count_result New r) (bumpProcessed v2) = (r', w')"
    by (simp add: candidateTurn_def Let_def)
  from commentsOfStory_frame [OF this]
  have "r_ingested r' = r_ingested r + 1" "r_errors r' = r_errors r"
    by (simp_all add: count_result_def)
  with ct have cnt: "r_ingested (fst (candidateTurn e hnId r w)) = r_ingested r + 1"
    "r_errors (fst (candidateTurn e hnId r w)) = r_errors r" by simp_all
  have loop: "storiesLoop e (hnId # rest) r w
                = storiesLoop e rest (fst (candidateTurn e hnId r w)) (snd (candidateTurn e hnId r w))"
    by (simp add: case_prod_beta)
  have turns: "cycleCurrent (worker (snd (storiesLoop e (hnId # rest) r w)))
                = cycleCurrent (worker w) + 1 + length rest"
    using storiesLoop_turns [of e "hnId # rest" r w] by simp
  have "s_hnId (last (stories ?w1)) = i_id item \<and> \<not> s_embedded (last (stories ?w1))
        \<and> s_analysisVersion (last (stories ?w1)) = None"
    unfolding s1 by (simp add: newStory_def)
  with p s1 e1 l1 cnt loop turns show ?thesis by blast
qed


theorem analysis_failure_is_contained_witness:
  "fst (processStoryOnly failing_env 101 empty_world) = Inr (New, Some item101)
   \<and> last (errors (worker (snd (processStoryOnly failing_env 101 empty_world))))
        = ''story 101: Request failed''
   \<and> map s_hnId (stories (snd (processStoryOnly failing_env 101 empty_world))) = [101]
   \<and> map s_embedded (stories (snd (processStoryOnly failing_env 101 empty_world))) = [False]
   \<and> errors (worker (snd (runIngestionCycle failing_env empty_world)))
        = [''story 101: Request failed'']
   \<and> fst (runIngestionCycle failing_env empty_world)
        = Inr \<lparr>r_ingested = 1, r_skipped = 0, r_tooOld = 1, r_errors = 0,
                r_commentsProcessed = 1, r_newComments = 1\<rparr>
   \<and> cycleCurrent (worker (snd (storiesLoop failing_env [101, 202] no_result empty_world))) = 2"
proof -
  have h1: "dbFault failing_env (StoryFindOne 101) = None"
    by (simp add: failing_env_def sample_env_def)
  have h2: "find_row (\<lambda>r. s_hnId r = 101) (stories empty_world) = None"
    by (simp add: empty_world_def)
  have h3: "fetchItem failing_env 101 = Some item101"
    by (simp add: failing_env_def sample_env_def)
  have h4: "i_type item101 = ''story''" by (simp add: item101_def sample_item_def)
  have h5: "isRecent (cfg failing_env) (clock failing_env 101) (i_time item101)" by code_simp
  have h6: "Story_create failing_env (newStory item101) (stories empty_world)
              = Inr (0, [newStory item101])"
    by (simp add: Story_create_def empty_world_def failing_env_def sample_env_def)
  have h7: "length (textForAnalysis item101) > 0" by code_simp
  have h8: "analyzeStory failing_env (str_or (i_title item101) []) (stripHtml (i_text item101))
              (str_or_null (i_url item101)) = Inl (Error ''Request failed'')"
    by (simp add: failing_env_def sample_env_def)
  have n: "''story '' @ show_int 101 @ '': '' @ or_str (err_message (Error ''Request failed'')) ''unknown''
             = ''story 101: Request failed''" by code_simp
  have z: "cycleCurrent (worker empty_world) = 0" by (simp add: empty_world_def sample_worker_def)
  from analysis_failure_is_contained [OF h1 h2 h3 h4 h5 h6 h7 h8, of "[202]" no_result]
  obtain w1 where w1: "processStoryOnly failing_env 101 empty_world = (Inr (New, Some item101), w1)"
    "stories w1 = stories empty_world @ [newStory item101]"
    "\<not> s_embedded (last (stories w1))"
    "last (errors (worker w1))
       = ''story '' @ show_int 101 @ '': '' @ or_str (err_message (Error ''Request failed'')) ''unknown''"
    "cycleCurrent (worker (snd (storiesLoop failing_env [101, 202] no_result empty_world)))
       = cycleCurrent (worker empty_world) + 1 + length [202::int]"
    by blast
  from w1(1) have 1: "fst (processStoryOnly failing_env 101 empty_world) = Inr (New, Some item101)"
    and snd: "snd (processStoryOnly failing_env 101 empty_world) = w1" by simp_all
  from w1(4) n snd
  have 2: "last (errors (worker (snd (processStoryOnly failing_env 101 empty_world))))
             = ''story 101: Request failed''" by simp
  from w1(2) snd
  have 3: "map s_hnId (stories (snd (processStoryOnly failing_env 101 empty_world))) = [101]"
    by (simp add: empty_world_def newStory_def item101_def sample_item_def)
  from w1(2,3) snd
  have 4: "map s_embedded (stories (snd (processStoryOnly failing_env 101 empty_world))) = [False]"
    by (simp add: empty_world_def)
  have 5: "errors (worker (snd (runIngestionCycle failing_env empty_world)))
             = [''story 101: Request failed'']" by code_simp
  have 6: "fst (runIngestionCycle failing_env empty_world)
        = Inr \<lparr>r_ingested = 1, r_skipped = 0, r_tooOld = 1, r_errors = 0,
                r_commentsProcessed = 1, r_newComments = 1\<rparr>" by code_simp
  from w1(5) z
  have 7: "cycleCurrent (worker (snd (storiesLoop failing_env [101, 202] no_result empty_world))) = 2"
    by simp
  from 1 2 3 4 5 6 7 show ?thesis by simp
qed

lemma map_update_same: "f x = f (xs ! i) \<Longrightarrow> map f (xs[i := x]) = map f xs"
proof (cases "i < length xs")
  case True
  assume "f x = f (xs ! i)"
  with True have "(map f xs)[i := f x] = (map f xs)[i := map f xs ! i]" by simp
  then show ?thesis by (simp add: map_update)
next
  case False
  then have "length xs \<le> i" by simp
  then show ?thesis by (simp add: list_update_beyond)
qed

lemma story_write_ids:
  assumes "story_write ok tbl tbl'"
  shows "set (map s_hnId tbl') \<subseteq> set (map s_hnId tbl) \<union> {i_id item | item. ok item}"
  using assms
proof (induction rule: story_write.induct)
  case sw_refl then show ?case by simp
next
  case (sw_create tbl' item)
  then show ?case by (auto simp: newStory_def)
next
  case (sw_refresh tbl' row item)
  have "map s_hnId (tbl'[row := Story_update (storyRefreshPatch item (tbl' ! row)) (tbl' ! row)])
          = map s_hnId tbl'"
    by (rule map_update_same) (simp add: Story_update_def)
  with sw_refresh.IH show ?case by simp
next
  case (sw_analyzed tbl' row a now)
  have "map s_hnId (tbl'[row := Story_update
          (storyAnalysisPatch a (normalizeConcepts (sa_concepts a)) now) (tbl' ! row)])
          = map s_hnId tbl'"
    by (rule map_update_same) (simp add: Story_update_def)
  with sw_analyzed.IH show ?case by simp
qed

text \<open>
  C2, as amended.  A candidate whose fetched item is of type story and older than the
  maximum age is classified \<open>too_old\<close>, whether it is stored or not, and its turn writes
  to neither table; a candidate that is not stored and whose item is not of type story is
  classified \<open>error\<close>, whatever its age, and nothing is written either.  When the upstream
  answers each identifier with the item of that identifier, an identifier that is not
  stored and whose item is not a story within the maximum age is still not stored
  after the cycle.  (All of it when the lookup in the store succeeds.)
\<close>

theorem too_old_story_is_not_stored:
  assumes nofault: "dbFault e (StoryFindOne hnId) = None"
    and item: "fetchItem e hnId = Some item"
  shows "(i_type item = ''story'' \<longrightarrow> \<not> isRecent (cfg e) (clock e hnId) (i_time item) \<longrightarrow>
            processStoryOnly e hnId w = (Inr (TooOld, Some item), w)
            \<and> fst (candidateTurn e hnId r w) = r\<lparr>r_tooOld := r_tooOld r + 1\<rparr>
            \<and> stories (snd (candidateTurn e hnId r w)) = stories w
            \<and> comments (snd (candidateTurn e hnId r w)) = comments w)
       \<and> (i_type item \<noteq> ''story'' \<longrightarrow> find_row (\<lambda>s. s_hnId s = hnId) (stories w) = None \<longrightarrow>
            processStoryOnly e hnId w = (Inr (ErrorResult, None), w)
            \<and> fst (candidateTurn e hnId r w) = r\<lparr>r_errors := r_errors r + 1\<rparr>
            \<and> stories (snd (candidateTurn e hnId r w)) = stories w
            \<and> comments (snd (candidateTurn e hnId r w)) = comments w)
       \<and> ((\<forall>k it. fetchItem e k = Some it \<longrightarrow> i_id it = k) \<longrightarrow>
            \<not> (i_type item = ''story'' \<and> isRecent (cfg e) (clock e hnId) (i_time item)) \<longrightarrow>
            hnId \<notin> set (map s_hnId (stories w)) \<longrightarrow>
            hnId \<notin> set (map s_hnId (stories (snd (runIngestionCycle e w)))))"
proof (intro conjI impI)
  assume s: "i_type item = ''story''" and old: "\<not> isRecent (cfg e) (clock e hnId) (i_time item)"
  show p: "processStoryOnly e hnId v = (Inr (TooOld, Some item), v)" for v
    using nofault item s old by (simp add: processStoryOnly_def Let_def)
  have t: "candidateTurn e hnId r w
        = (r\<lparr>r_tooOld := r_tooOld r + 1\<rparr>,
           bumpProcessed (w\<lparr>worker := (worker w)\<lparr>cycleCurrent := cycleCurrent (worker w) + 1\<rparr>\<rparr>))"
    by (simp add: candidateTurn_def Let_def p count_result_def)
  show "fst (candidateTurn e hnId r w) = r\<lparr>r_tooOld := r_tooOld r + 1\<rparr>"
    and "stories (snd (candidateTurn e hnId r w)) = stories w"
    and "comments (snd (candidateTurn e hnId r w)) = comments w"
    unfolding t by (simp_all add: bumpProcessed_def)
next
  assume s: "i_type item \<noteq> ''story''" and ne: "find_row (\<lambda>s. s_hnId s = hnId) (stories w) = None"
  show p: "processStoryOnly e hnId w = (Inr (ErrorResult, None), w)"
    using nofault item s ne by (simp add: processStoryOnly_def Let_def)
  let ?v = "w\<lparr>worker := (worker w)\<lparr>cycleCurrent := cycleCurrent (worker w) + 1\<rparr>\<rparr>"
  have "processStoryOnly e hnId ?v = (Inr (ErrorResult, None), ?v)"
    using nofault item s ne by (simp add: processStoryOnly_def Let_def)
  then have t: "candidateTurn e hnId r w = (r\<lparr>r_errors := r_errors r + 1\<rparr>, bumpProcessed ?v)"
    by (simp add: candidateTurn_def Let_def count_result_def)
  show "fst (candidateTurn e hnId r w) = r\<lparr>r_errors := r_errors r + 1\<rparr>"
    and "stories (snd (candidateTurn e hnId r w)) = stories w"
    and "comments (snd (candidateTurn e hnId r w)) = comments w"
    unfolding t by (simp_all add: bumpProcessed_def)
next
  assume coherent: "\<forall>k it. fetchItem e k = Some it \<longrightarrow> i_id it = k"
    and notfresh: "\<not> (i_type item = ''story'' \<and> isRecent (cfg e) (clock e hnId) (i_time item))"
    and absent: "hnId \<notin> set (map s_hnId (stories w))"
  obtain x w' where run: "runIngestionCycle e w = (x, w')" by (cases "runIngestionCycle e w")
  from runIngestionCycle_frame [OF run]
  have "story_write (fresh_story e) (stories w) (stories w')" by simp
  from story_write_ids [OF this]
  have sub: "set (map s_hnId (stories w'))
               \<subseteq> set (map s_hnId (stories w)) \<union> {i_id it | it. fresh_story e it}" .
  have "hnId \<notin> {i_id it | it. fresh_story e it}"
  proof
    assume "hnId \<in> {i_id it | it. fresh_story e it}"
    then obtain it k where it: "i_id it = hnId" "fetchItem e k = Some it" "i_type it = ''story''"
      "isRecent (cfg e) (clock e k) (i_time it)" by (auto simp: fresh_story_def)
    from coherent it(2) have "i_id it = k" by blast
    with it(1) have "k = hnId" by simp
    with it(2) item have "it = item" by simp
    with it(3,4) \<open>k = hnId\<close> notfresh show False by simp
  qed
  with sub absent have "hnId \<notin> set (map s_hnId (stories w'))" by blast
  with run show "hnId \<notin> set (map s_hnId (stories (snd (runIngestionCycle e w))))" by simp
qed

theorem too_old_story_is_not_stored_witness:
  "processStoryOnly sample_env 202 empty_world = (Inr (TooOld, Some item202), empty_world)
   \<and> fst (candidateTurn sample_env 202 no_result empty_world) = no_result\<lparr>r_tooOld := 1\<rparr>
   \<and> processStoryOnly sample_env 303 empty_world = (Inr (ErrorResult, None), empty_world)
   \<and> 202 \<notin> set (map s_hnId (stories (snd (runIngestionCycle sample_env empty_world))))
   \<and> map s_hnId (stories (snd (runIngestionCycle sample_env empty_world))) = [101]"
proof -
  have h1: "dbFault sample_env (StoryFindOne k) = None" for k by (simp add: sample_env_def)
  have h2: "fetchItem sample_env 202 = Some item202" by (simp add: sample_env_def)
  have h3: "fetchItem sample_env 303 = Some item303" by (simp add: sample_env_def)
  have s2: "i_type item202 = ''story''" by (simp add: item202_def sample_item_def)
  have s3: "i_type item303 \<noteq> ''story''" by (simp add: item303_def sample_item_def)
  have old: "\<not> isRecent (cfg sample_env) (clock sample_env 202) (i_time item202)" by code_simp
  have ne: "find_row (\<lambda>s. s_hnId s = 303) (stories empty_world) = None"
    by (simp add: empty_world_def)
  have absent: "202 \<notin> set (map s_hnId (stories empty_world))" by (simp add: empty_world_def)
  have coherent: "\<forall>k it. fetchItem sample_env k = Some it \<longrightarrow> i_id it = k"
    by (auto simp: sample_env_def item101_def item202_def item301_def item303_def sample_item_def
          split: if_splits)
  have z: "r_tooOld no_result = 0" by (simp add: no_result_def)
  note t2 = too_old_story_is_not_stored [OF h1 h2, of empty_world no_result]
  note t3 = too_old_story_is_not_stored [OF h1 h3, of empty_world no_result]
  from t2 s2 old
  have 1: "processStoryOnly sample_env 202 empty_world = (Inr (TooOld, Some item202), empty_world)"
    and 2: "fst (candidateTurn sample_env 202 no_result empty_world) = no_result\<lparr>r_tooOld := 1\<rparr>"
    using z by simp_all
  from t3 s3 ne
  have 3: "processStoryOnly sample_env 303 empty_world = (Inr (ErrorResult, None), empty_world)"
    by simp
  from t2 coherent old absent
  have 4: "202 \<notin> set (map s_hnId (stories (snd (runIngestionCycle sample_env empty_world))))"
    by blast
  have 5: "map s_hnId (stories (snd (runIngestionCycle sample_env empty_world))) = [101]"
    by code_simp
  from 1 2 3 4 5 show ?thesis by simp
qed

text \<open>
  C2 as stated fails.  The candidate 303 is not stored and its item is twenty hours old,
  with a maximum age of eight hours; the item is a job posting, and the candidate is
  classified \<open>error\<close>, not \<open>too_old\<close> (the check of the type comes before the check of the
  age).  No record is created.
\<close>

theorem too_old_job_counterexample:
  "fetchItem sample_env 303 = Some item303
   \<and> stories empty_world = []
   \<and> \<not> isRecent (cfg sample_env) (clock sample_env 303) (i_time item303)
   \<and> fst (processStoryOnly sample_env 303 empty_world) = Inr (ErrorResult, None)
   \<and> fst (runIngestionCycle job_env empty_world)
        = Inr \<lparr>r_ingested = 0, r_skipped = 0, r_tooOld = 0, r_errors = 1,
                r_commentsProcessed = 0, r_newComments = 0\<rparr>
   \<and> stories (snd (runIngestionCycle job_env empty_world)) = []"
  by code_simp

text \<open>
  C4, as amended.  For a candidate that is stored at the start of its turn (and whose
  lookup succeeds): when its item is fetched, is a story and is within the maximum age,
  the turn writes \<open>score\<close> and \<open>descendants\<close> of its row, and nothing else, and the
  candidate is classified \<open>cached\<close> (a fetched value that is absent or 0 keeps the stored
  one); when the item is a story older than the maximum age, the candidate is classified
  \<open>too_old\<close> and nothing is written; when the fetch fails or the item is not a story, the
  candidate is classified \<open>cached\<close> and nothing is written.
\<close>

theorem stored_story_is_refreshed_when_recent:
  assumes nofault: "dbFault e (StoryFindOne hnId) = None"
    and stored: "find_row (\<lambda>s. s_hnId s = hnId) (stories w) = Some i"
  shows "(fetchItem e hnId = Some item \<longrightarrow> i_type item = ''story'' \<longrightarrow>
            isRecent (cfg e) (clock e hnId) (i_time item) \<longrightarrow> dbFault e (StoryUpdate hnId) = None \<longrightarrow>
            processStoryOnly e hnId w
              = (Inr (Cached, Some item),
                 w\<lparr>stories := (stories w)[i := (stories w ! i)
                     \<lparr>s_score := num_or (i_score item) (s_score (stories w ! i)),
                      s_descendants := num_or (i_descendants item) (s_descendants (stories w ! i))\<rparr>]\<rparr>))
       \<and> (fetchItem e hnId = Some item \<longrightarrow> i_type item = ''story'' \<longrightarrow>
            \<not> isRecent (cfg e) (clock e hnId) (i_time item) \<longrightarrow>
            processStoryOnly e hnId w = (Inr (TooOld, Some item), w))
       \<and> (fetchItem e hnId = None \<or> (fetchItem e hnId = Some item \<and> i_type item \<noteq> ''story'') \<longrightarrow>
            processStoryOnly e hnId w = (Inr (Cached, None), w))"
proof (intro conjI impI)
  assume "fetchItem e hnId = Some item" "i_type item = ''story''"
    "isRecent (cfg e) (clock e hnId) (i_time item)" "dbFault e (StoryUpdate hnId) = None"
  moreover have "Story_update (storyRefreshPatch item s) s
                   = s\<lparr>s_score := num_or (i_score item) (s_score s),
                       s_descendants := num_or (i_descendants item) (s_descendants s)\<rparr>" for s
    by (simp add: Story_update_def storyRefreshPatch_def)
  ultimately show "processStoryOnly e hnId w
              = (Inr (Cached, Some item),
                 w\<lparr>stories := (stories w)[i := (stories w ! i)
                     \<lparr>s_score := num_or (i_score item) (s_score (stories w ! i)),
                      s_descendants := num_or (i_descendants item) (s_descendants (stories w ! i))\<rparr>]\<rparr>)"
    using nofault stored by (simp add: processStoryOnly_def Let_def)
next
  assume "fetchItem e hnId = Some item" "i_type item = ''story''"
    "\<not> isRecent (cfg e) (clock e hnId) (i_time item)"
  then show "processStoryOnly e hnId w = (Inr (TooOld, Some item), w)"
    using nofault by (simp add: processStoryOnly_def Let_def)
next
  assume "fetchItem e hnId = None \<or> (fetchItem e hnId = Some item \<and> i_type item \<noteq> ''story'')"
  then show "processStoryOnly e hnId w = (Inr (Cached, None), w)"
    using nofault stored by (auto simp: processStoryOnly_def Let_def)
qed

theorem stored_story_is_refreshed_when_recent_witness:
  "fst (processStoryOnly sample_env 101 world_with_301) = Inr (Cached, Some item101)
   \<and> map s_score (stories world_with_301) = [3]
   \<and> map s_score (stories (snd (processStoryOnly sample_env 101 world_with_301))) = [10]
   \<and> processStoryOnly sample_env 202 world_with_202 = (Inr (TooOld, Some item202), world_with_202)
   \<and> processStoryOnly sample_env 999 (world_with_202\<lparr>stories := [newStory (sample_item\<lparr>i_id := 999\<rparr>)]\<rparr>)
       = (Inr (Cached, None), world_with_202\<lparr>stories := [newStory (sample_item\<lparr>i_id := 999\<rparr>)]\<rparr>)"
proof -
  have h1: "dbFault sample_env op = None" for op by (simp add: sample_env_def)
  have st1: "find_row (\<lambda>s. s_hnId s = 101) (stories world_with_301) = Some 0"
    by (simp add: world_with_301_def newStory_def item101_def sample_item_def)
  have st2: "find_row (\<lambda>s. s_hnId s = 202) (stories world_with_202) = Some 0"
    by (simp add: world_with_202_def newStory_def item202_def sample_item_def)
  have st3: "find_row (\<lambda>s. s_hnId s = 999)
               (stories (world_with_202\<lparr>stories := [newStory (sample_item\<lparr>i_id := 999\<rparr>)]\<rparr>)) = Some 0"
    by (simp add: newStory_def)
  have f1: "fetchItem sample_env 101 = Some item101" by (simp add: sample_env_def)
  have f2: "fetchItem sample_env 202 = Some item202" by (simp add: sample_env_def)
  have f3: "fetchItem sample_env 999 = None" by (simp add: sample_env_def)
  have s1: "i_type item101 = ''story''" by (simp add: item101_def sample_item_def)
  have s2: "i_type item202 = ''story''" by (simp add: item202_def sample_item_def)
  have r1: "isRecent (cfg sample_env) (clock sample_env 101) (i_time item101)" by code_simp
  have r2: "\<not> isRecent (cfg sample_env) (clock sample_env 202) (i_time item202)" by code_simp
  have sc: "i_score item101 = Some 10" by (simp add: item101_def)
  from stored_story_is_refreshed_when_recent [OF h1 st1, of item101] f1 s1 r1 h1
  have p: "processStoryOnly sample_env 101 world_with_301
              = (Inr (Cached, Some item101),
                 world_with_301\<lparr>stories := (stories world_with_301)[0 := (stories world_with_301 ! 0)
                     \<lparr>s_score := num_or (i_score item101) (s_score (stories world_with_301 ! 0)),
                      s_descendants := num_or (i_descendants item101)
                         (s_descendants (stories world_with_301 ! 0))\<rparr>]\<rparr>)" by simp
  then have 1: "fst (processStoryOnly sample_env 101 world_with_301) = Inr (Cached, Some item101)"
    by simp
  have 2: "map s_score (stories world_with_301) = [3]" by (simp add: world_with_301_def)
  from p sc
  have 3: "map s_score (stories (snd (processStoryOnly sample_env 101 world_with_301))) = [10]"
    by (simp add: world_with_301_def)
  from stored_story_is_refreshed_when_recent [OF h1 st2, of item202] f2 s2 r2
  have 4: "processStoryOnly sample_env 202 world_with_202
             = (Inr (TooOld, Some item202), world_with_202)" by simp
  from stored_story_is_refreshed_when_recent [OF h1 st3, of sample_item] f3
  have 5: "processStoryOnly sample_env 999 (world_with_202\<lparr>stories := [newStory (sample_item\<lparr>i_id := 999\<rparr>)]\<rparr>)
       = (Inr (Cached, None), world_with_202\<lparr>stories := [newStory (sample_item\<lparr>i_id := 999\<rparr>)]\<rparr>)"
    by simp
  from 1 2 3 4 5 show ?thesis by simp
qed

text \<open>
  C4 as stated fails.  Story 202 is stored, with score 5; its item is fetched with score
  99 and is twenty hours old.  The candidate is classified \<open>too_old\<close>, not \<open>cached\<close>, and
  its row is not refreshed: the age is checked before the store is consulted.
\<close>

theorem stored_old_story_counterexample:
  "map s_hnId (stories world_with_202) = [202]
   \<and> fetchItem sample_env 202 = Some item202
   \<and> i_score item202 = Some 99
   \<and> map s_score (stories world_with_202) = [5]
   \<and> fst (processStoryOnly sample_env 202 world_with_202) = Inr (TooOld, Some item202)
   \<and> map s_score (stories (snd (processStoryOnly sample_env 202 world_with_202))) = [5]
   \<and> r_skipped (fst (candidateTurn sample_env 202 no_result world_with_202)) = 0
   \<and> r_tooOld (fst (candidateTurn sample_env 202 no_result world_with_202)) = 1"
  by code_simp

lemma analyzeNewComment_ids:
  assumes "analyzeNewComment e ci storyHnId storyTitle parentContext row commentText w = (r, w')"
  shows "map c_hnId (comments w') = map c_hnId (comments w)"
proof -
  from analyzeNewComment_frame [OF assms]
  have "comments w' = comments w \<or>
         (\<exists>a. comments w' = (comments w)[row := Comment_update
                  (commentAnalysisPatch a (normalizeConcepts (ca_concepts a)) (clock e (i_id ci)))
                  (comments w ! row)])" by blast
  then show ?thesis
  proof
    assume "comments w' = comments w" then show ?thesis by simp
  next
    assume "\<exists>a. comments w' = (comments w)[row := Comment_update
                  (commentAnalysisPatch a (normalizeConcepts (ca_concepts a)) (clock e (i_id ci)))
                  (comments w ! row)]"
    then obtain a where "comments w' = (comments w)[row := Comment_update
                  (commentAnalysisPatch a (normalizeConcepts (ca_concepts a)) (clock e (i_id ci)))
                  (comments w ! row)]" by blast
    moreover have "map c_hnId ((comments w)[row := Comment_update
                  (commentAnalysisPatch a (normalizeConcepts (ca_concepts a)) (clock e (i_id ci)))
                  (comments w ! row)]) = map c_hnId (comments w)"
      by (rule map_update_same) (simp add: Comment_update_def)
    ultimately show ?thesis by simp
  qed
qed

lemma processComment_ids:
  assumes "processComment e ci storyHnId storyTitle parentContext w = (ok, w')"
  shows "map c_hnId (comments w')
           = (if i_id ci \<in> set (map c_hnId (comments w)) \<or> dbFault e (CommentCreate (i_id ci)) \<noteq> None
              then map c_hnId (comments w) else map c_hnId (comments w) @ [i_id ci])"
proof (cases "Comment_create e (newComment ci storyHnId) (comments w)")
  case (Inl err)
  with assms have "w' = w" by (simp add: processComment_def)
  moreover from Inl
  have "i_id ci \<in> set (map c_hnId (comments w)) \<or> dbFault e (CommentCreate (i_id ci)) \<noteq> None"
    by (auto simp: Comment_create_def newComment_def split: if_splits option.splits)
  ultimately show ?thesis by auto
next
  case (Inr p)
  obtain row tbl where p: "p = (row, tbl)" by (cases p)
  with Inr have tbl: "tbl = comments w @ [newComment ci storyHnId]"
    and ok: "\<not> (i_id ci \<in> set (map c_hnId (comments w)) \<or> dbFault e (CommentCreate (i_id ci)) \<noteq> None)"
    by (auto simp: Comment_create_def newComment_def split: if_splits option.splits)
  let ?w1 = "w\<lparr>comments := tbl\<rparr>"
  have ids1: "map c_hnId (comments ?w1) = map c_hnId (comments w) @ [i_id ci]"
    using tbl by (simp add: newComment_def)
  have "map c_hnId (comments w') = map c_hnId (comments ?w1)"
  proof (cases "length (stripHtml (i_text ci)) > 30")
    case False
    with assms Inr p have "w' = ?w1" by (simp add: processComment_def Let_def)
    then show ?thesis by simp
  next
    case True
    obtain r w2 where a: "analyzeNewComment e ci storyHnId storyTitle parentContext row (stripHtml (i_text ci)) ?w1 = (r, w2)"
      by (cases "analyzeNewComment e ci storyHnId storyTitle parentContext row (stripHtml (i_text ci)) ?w1")
    with assms Inr p True have "w' = w2"
      by (auto simp: processComment_def Let_def split: option.splits)
    with analyzeNewComment_ids [OF a] show ?thesis by simp
  qed
  with ids1 ok show ?thesis by simp
qed

text \<open>
  C6.  An insert attempt for a comment identifier that is already stored fails on the
  unique index; \<open>processComment\<close> catches the violation and returns \<open>false\<close> without
  raising and without writing.  \<open>processComment\<close> never leaves two rows with one
  identifier.  After two attempts for the same new identifier exactly one row with that
  identifier is stored, and the second attempt reports failure.
\<close>

theorem duplicate_comment_insert_is_swallowed:
  "(i_id ci \<in> set (map c_hnId (comments w)) \<longrightarrow>
      Comment_create e (newComment ci sid) (comments w) = Inl UniqueConstraintError
      \<and> err_name UniqueConstraintError = ''SequelizeUniqueConstraintError''
      \<and> processComment e ci sid title pc w = (False, w))
   \<and> (distinct (map c_hnId (comments w)) \<longrightarrow>
        distinct (map c_hnId (comments (snd (processComment e ci sid title pc w)))))
   \<and> (i_id ci \<notin> set (map c_hnId (comments w)) \<longrightarrow> dbFault e (CommentCreate (i_id ci)) = None \<longrightarrow>
        count_list (map c_hnId (comments (snd (processComment e ci sid title pc w)))) (i_id ci) = 1
        \<and> processComment e ci sid' title' pc' (snd (processComment e ci sid title pc w))
            = (False, snd (processComment e ci sid title pc w)))"
proof (intro conjI impI)
  assume dup: "i_id ci \<in> set (map c_hnId (comments w))"
  then show c: "Comment_create e (newComment ci sid) (comments w) = Inl UniqueConstraintError"
    by (simp add: Comment_create_def newComment_def)
  show "err_name UniqueConstraintError = ''SequelizeUniqueConstraintError''"
    by (simp add: UniqueConstraintError_def)
  from c show "processComment e ci sid title pc w = (False, w)"
    by (simp add: processComment_def)
next
  assume d: "distinct (map c_hnId (comments w))"
  obtain ok w' where p: "processComment e ci sid title pc w = (ok, w')"
    by (cases "processComment e ci sid title pc w")
  from processComment_ids [OF p] d have "distinct (map c_hnId (comments w'))"
    by (auto split: if_splits)
  with p show "distinct (map c_hnId (comments (snd (processComment e ci sid title pc w))))" by simp
next
  assume new: "i_id ci \<notin> set (map c_hnId (comments w))"
    and nofault: "dbFault e (CommentCreate (i_id ci)) = None"
  obtain ok w' where p: "processComment e ci sid title pc w = (ok, w')"
    by (cases "processComment e ci sid title pc w")
  from processComment_ids [OF p] new nofault
  have ids: "map c_hnId (comments w') = map c_hnId (comments w) @ [i_id ci]" by simp
  from new have "count_list (map c_hnId (comments w)) (i_id ci) = 0"
    by (simp add: count_list_0_iff)
  with ids have "count_list (map c_hnId (comments w')) (i_id ci) = 1" by simp
  with p show "count_list (map c_hnId (comments (snd (processComment e ci sid title pc w)))) (i_id ci) = 1"
    by simp
  from ids have "i_id ci \<in> set (map c_hnId (comments w'))" by simp
  then have "Comment_create e (newComment ci sid') (comments w') = Inl UniqueConstraintError"
    by (simp add: Comment_create_def newComment_def)
  then have "processComment e ci sid' title' pc' w' = (False, w')"
    by (simp add: processComment_def)
  with p show "processComment e ci sid' title' pc' (snd (processComment e ci sid title pc w))
            = (False, snd (processComment e ci sid title pc w))" by simp
qed

theorem duplicate_comment_insert_is_swallowed_witness:
  "map c_hnId (comments world_with_301) = [301]
   \<and> processComment sample_env item301 101 ''Show HN: Ethos'' None world_with_301
       = (False, world_with_301)
   \<and> map c_hnId (comments (snd (processComment sample_env item301 101 ''Show HN: Ethos'' None
                                  empty_world))) = [301]
   \<and> fst (processComment sample_env item301 101 ''Show HN: Ethos'' None empty_world) = True
   \<and> fst (processComment sample_env item301 101 ''Show HN: Ethos'' None
             (snd (processComment sample_env item301 101 ''Show HN: Ethos'' None empty_world)))
       = False
   \<and> map c_hnId (comments (snd (processComment sample_env item301 101 ''Show HN: Ethos'' None
             (snd (processComment sample_env item301 101 ''Show HN: Ethos'' None empty_world)))))
       = [301]"
proof -
  let ?t = "''Show HN: Ethos''"
  let ?w1 = "snd (processComment sample_env item301 101 ?t None empty_world)"
  have ids: "map c_hnId (comments world_with_301) = [301]"
    by (simp add: world_with_301_def newComment_def item301_def sample_item_def)
  have dup: "i_id item301 \<in> set (map c_hnId (comments world_with_301))"
    using ids by (simp add: item301_def sample_item_def)
  have new: "i_id item301 \<notin> set (map c_hnId (comments empty_world))"
    by (simp add: empty_world_def)
  have nofault: "dbFault sample_env (CommentCreate (i_id item301)) = None"
    by (simp add: sample_env_def)
  have d0: "distinct (map c_hnId (comments empty_world))" by (simp add: empty_world_def)
  note th1 = duplicate_comment_insert_is_swallowed
    [of item301 world_with_301 sample_env 101 ?t None 101 ?t None]
  note th2 = duplicate_comment_insert_is_swallowed
    [of item301 empty_world sample_env 101 ?t None 101 ?t None]
  from th1 dup
  have 1: "processComment sample_env item301 101 ?t None world_with_301 = (False, world_with_301)"
    by blast
  have 2: "map c_hnId (comments ?w1) = [301]" by code_simp
  have 3: "fst (processComment sample_env item301 101 ?t None empty_world) = True" by code_simp
  from th2 new nofault
  have 4: "processComment sample_env item301 101 ?t None ?w1 = (False, ?w1)" by blast
  from 4 have 5: "fst (processComment sample_env item301 101 ?t None ?w1) = False" by simp
  from 4 2 have 6: "map c_hnId (comments (snd (processComment sample_env item301 101 ?t None ?w1)))
                      = [301]" by simp
  from ids 1 2 3 5 6 show ?thesis by simp
qed

section \<open>What a regeneration run changes\<close>

lemma staleVersion_iff: "staleVersion v av \<longleftrightarrow> av \<noteq> Some v"
  by (cases av) (auto simp: staleVersion_def)

lemma storiesToRegen_sound:
  assumes "(k, s) \<in> set (storiesToRegen opts tbl)"
  shows "k < length tbl \<and> s = tbl ! k \<and> s_embedded s
         \<and> s_analysisVersion s \<noteq> Some (versionFilter opts) \<and> timeCondition (timeWhere opts) (s_time s)"
proof -
  from assms have "(k, s) \<in> set (filter (\<lambda>(k, s). s_embedded s
        \<and> staleVersion (versionFilter opts) (s_analysisVersion s) \<and> timeCondition (timeWhere opts) (s_time s))
        (enumerate 0 tbl))"
    unfolding storiesToRegen_def by (auto dest: in_set_takeD)
  then show ?thesis by (auto simp: in_set_enumerate_eq staleVersion_iff)
qed

lemma commentsToRegen_sound:
  assumes "(k, c) \<in> set (commentsToRegen opts tbl)"
  shows "k < length tbl \<and> c = tbl ! k \<and> c_embedded c
         \<and> c_analysisVersion c \<noteq> Some (versionFilter opts) \<and> timeCondition (timeWhere opts) (c_time c)"
proof -
  from assms have "(k, c) \<in> set (filter (\<lambda>(k, c). c_embedded c
        \<and> staleVersion (versionFilter opts) (c_analysisVersion c) \<and> timeCondition (timeWhere opts) (c_time c))
        (enumerate 0 tbl))"
    unfolding commentsToRegen_def by (auto dest: in_set_takeD)
  then show ?thesis by (auto simp: in_set_enumerate_eq staleVersion_iff)
qed

text \<open>
  The bounds \<open>since\<close> and \<open>until\<close> never reach the query: \<open>timeFilters\<close> has no property
  that \<open>Object.keys\<close> lists, so \<open>timeWhere\<close> is the empty object whatever the options are,
  and a run with a time window is the run without it.
\<close>

lemma timeWhere_is_empty: "timeWhere opts = None"
  by (simp add: timeWhere_def Object_keys_def timeFilters_def)

lemma timeCondition_timeWhere: "timeCondition (timeWhere opts) t"
  by (simp add: timeWhere_is_empty timeCondition_def)

lemma runRegeneration_ignores_window:
  "storiesToRegen (opts\<lparr>o_since := lo, o_until := hi\<rparr>) tbl = storiesToRegen opts tbl
   \<and> commentsToRegen (opts\<lparr>o_since := lo, o_until := hi\<rparr>) tbl' = commentsToRegen opts tbl'
   \<and> runRegeneration e (opts\<lparr>o_since := lo, o_until := hi\<rparr>) w = runRegeneration e opts w"
proof -
  let ?o = "opts\<lparr>o_since := lo, o_until := hi\<rparr>"
  have v: "versionFilter ?o = versionFilter opts" by (simp add: versionFilter_def)
  have ty: "regenType ?o = regenType opts" by (simp add: regenType_def)
  have s: "storiesToRegen ?o l = storiesToRegen opts l" for l
    by (simp add: storiesToRegen_def timeCondition_timeWhere v)
  have c: "commentsToRegen ?o l = commentsToRegen opts l" for l
    by (simp add: commentsToRegen_def timeCondition_timeWhere v)
  have r: "runRegeneration e ?o w = runRegeneration e opts w"
    unfolding runRegeneration_def v ty s c ..
  from s c r show ?thesis by simp
qed

lemma regenerateStory_frame:
  assumes "regenerateStory e v inst w = (r, w')"
  shows "comments w' = comments w \<and> worker w' = worker w
        \<and> (stories w' = stories w \<or>
         (\<exists>a. stories w' = (stories w)[fst inst := Story_update
                  (storyRegenPatch a (normalizeConcepts (sa_concepts a)) v (clock e (s_hnId (snd inst))))
                  (stories w ! fst inst)]))"
  using assms
  unfolding regenerateStory_def Let_def storyUpsert_def
  by (auto split: sum.splits option.splits)

lemma regenerateComment_frame:
  assumes "regenerateComment e v inst w = (r, w')"
  shows "stories w' = stories w \<and> worker w' = worker w
        \<and> (comments w' = comments w \<or>
         (\<exists>a. comments w' = (comments w)[fst inst := Comment_update
                  (commentRegenPatch a (normalizeConcepts (ca_concepts a)) v (clock e (c_hnId (snd inst))))
                  (comments w ! fst inst)]))"
  using assms
  unfolding regenerateComment_def Let_def commentUpsert_def
  by (auto split: sum.splits option.splits if_splits)

lemma story_regen_trans:
  "story_regen v b c \<Longrightarrow> story_regen v a b \<Longrightarrow> story_regen v a c"
  by (induction rule: story_regen.induct) (auto intro: story_regen.intros)

lemma comment_regen_trans:
  "comment_regen v b c \<Longrightarrow> comment_regen v a b \<Longrightarrow> comment_regen v a c"
  by (induction rule: comment_regen.induct) (auto intro: comment_regen.intros)

lemma story_regen_embedded:
  "story_regen v tbl tbl' \<Longrightarrow> map s_embedded tbl' = map s_embedded tbl"
proof (induction rule: story_regen.induct)
  case sr_refl show ?case by simp
next
  case (sr_update tbl' row a now)
  have "map s_embedded (tbl'[row := Story_update
          (storyRegenPatch a (normalizeConcepts (sa_concepts a)) v now) (tbl' ! row)])
        = map s_embedded tbl'"
    by (rule map_update_same) (simp add: Story_update_def storyRegenPatch_def)
  with sr_update.IH show ?case by simp
qed

lemma comment_regen_embedded:
  "comment_regen v tbl tbl' \<Longrightarrow> map c_embedded tbl' = map c_embedded tbl"
proof (induction rule: comment_regen.induct)
  case cr_refl show ?case by simp
next
  case (cr_update tbl' row a now)
  have "map c_embedded (tbl'[row := Comment_update
          (commentRegenPatch a (normalizeConcepts (ca_concepts a)) v now) (tbl' ! row)])
        = map c_embedded tbl'"
    by (rule map_update_same) (simp add: Comment_update_def commentRegenPatch_def)
  with cr_update.IH show ?case by simp
qed

lemma map_eq_nth: "map f xs = map f ys \<Longrightarrow> k < length ys \<Longrightarrow> f (xs ! k) = f (ys ! k)"
  by (metis length_map nth_map)

lemma regenStories_frame:
  "regenStories e v insts g w = (g', w') \<Longrightarrow>
   \<forall>(k, s)\<in>set insts. k < length (stories w) \<and> s_embedded (stories w ! k) \<Longrightarrow>
   comments w' = comments w \<and> worker w' = worker w
   \<and> story_regen v (stories w) (stories w')
   \<and> length (stories w') = length (stories w)
   \<and> (\<forall>k. k \<notin> fst ` set insts \<longrightarrow> stories w' ! k = stories w ! k)"
proof (induction insts arbitrary: g w)
  case Nil
  then show ?case by (auto intro: story_regen.intros)
next
  case (Cons inst rest)
  obtain r w1 where s: "regenerateStory e v inst w = (r, w1)"
    by (cases "regenerateStory e v inst w")
  from Cons.prems(2) have row: "fst inst < length (stories w)" "s_embedded (stories w ! fst inst)"
    by (auto split: prod.splits)
  from regenerateStory_frame [OF s]
  have f: "comments w1 = comments w" "worker w1 = worker w"
    "stories w1 = stories w \<or>
         (\<exists>a. stories w1 = (stories w)[fst inst := Story_update
                  (storyRegenPatch a (normalizeConcepts (sa_concepts a)) v (clock e (s_hnId (snd inst))))
                  (stories w ! fst inst)])" by blast+
  from f(3) have sr: "story_regen v (stories w) (stories w1)"
    using sr_update [OF sr_refl row, of v] by (auto intro: story_regen.intros)
  from f(3) have len: "length (stories w1) = length (stories w)" by auto
  from f(3) have other: "\<forall>k. k \<noteq> fst inst \<longrightarrow> stories w1 ! k = stories w ! k" by auto
  have emb: "\<forall>(k, s)\<in>set rest. k < length (stories w1) \<and> s_embedded (stories w1 ! k)"
  proof (clarify)
    fix k s assume "(k, s) \<in> set rest"
    with Cons.prems(2) have k: "k < length (stories w)" "s_embedded (stories w ! k)" by auto
    from story_regen_embedded [OF sr] k(1)
    have "s_embedded (stories w1 ! k) = s_embedded (stories w ! k)" by (rule map_eq_nth)
    with k len show "k < length (stories w1) \<and> s_embedded (stories w1 ! k)" by simp
  qed
  from Cons.prems(1) s obtain g1 where l: "regenStories e v rest g1 w1 = (g', w')"
    by (cases r) auto
  from Cons.IH [OF l emb]
  have ih: "comments w' = comments w1" "worker w' = worker w1"
    "story_regen v (stories w1) (stories w')" "length (stories w') = length (stories w1)"
    "\<forall>k. k \<notin> fst ` set rest \<longrightarrow> stories w' ! k = stories w1 ! k" by blast+
  from ih(3) sr have "story_regen v (stories w) (stories w')" by (rule story_regen_trans)
  moreover have "\<forall>k. k \<notin> fst ` set (inst # rest) \<longrightarrow> stories w' ! k = stories w ! k"
    using ih(5) other by auto
  ultimately show ?case using ih f len by simp
qed

lemma regenComments_frame:
  "regenComments e v insts g w = (g', w') \<Longrightarrow>
   \<forall>(k, c)\<in>set insts. k < length (comments w) \<and> c_embedded (comments w ! k) \<Longrightarrow>
   stories w' = stories w \<and> worker w' = worker w
   \<and> comment_regen v (comments w) (comments w')
   \<and> length (comments w') = length (comments w)
   \<and> (\<forall>k. k \<notin> fst ` set insts \<longrightarrow> comments w' ! k = comments w ! k)"
proof (induction insts arbitrary: g w)
  case Nil
  then show ?case by (auto intro: comment_regen.intros)
next
  case (Cons inst rest)
  obtain r w1 where s: "regenerateComment e v inst w = (r, w1)"
    by (cases "regenerateComment e v inst w")
  from Cons.prems(2) have row: "fst inst < length (comments w)" "c_embedded (comments w ! fst inst)"
    by (auto split: prod.splits)
  from regenerateComment_frame [OF s]
  have f: "stories w1 = stories w" "worker w1 = worker w"
    "comments w1 = comments w \<or>
         (\<exists>a. comments w1 = (comments w)[fst inst := Comment_update
                  (commentRegenPatch a (normalizeConcepts (ca_concepts a)) v (clock e (c_hnId (snd inst))))
                  (comments w ! fst inst)])" by blast+
  from f(3) have sr: "comment_regen v (comments w) (comments w1)"
    using cr_update [OF cr_refl row, of v] by (auto intro: comment_regen.intros)
  from f(3) have len: "length (comments w1) = length (comments w)" by auto
  from f(3) have other: "\<forall>k. k \<noteq> fst inst \<longrightarrow> comments w1 ! k = comments w ! k" by auto
  have emb: "\<forall>(k, c)\<in>set rest. k < length (comments w1) \<and> c_embedded (comments w1 ! k)"
  proof (clarify)
    fix k c assume "(k, c) \<in> set rest"
    with Cons.prems(2) have k: "k < length (comments w)" "c_embedded (comments w ! k)" by auto
    from comment_regen_embedded [OF sr] k(1)
    have "c_embedded (comments w1 ! k) = c_embedded (comments w ! k)" by (rule map_eq_nth)
    with k len show "k < length (comments w1) \<and> c_embedded (comments w1 ! k)" by simp
  qed
  from Cons.prems(1) s obtain g1 where l: "regenComments e v rest g1 w1 = (g', w')"
    by (cases r) (auto split: bool.splits)
  from Cons.IH [OF l emb]
  have ih: "stories w' = stories w1" "worker w' = worker w1"
    "comment_regen v (comments w1) (comments w')" "length (comments w') = length (comments w1)"
    "\<forall>k. k \<notin> fst ` set rest \<longrightarrow> comments w' ! k = comments w1 ! k" by blast+
  from ih(3) sr have "comment_regen v (comments w) (comments w')" by (rule comment_regen_trans)
  moreover have "\<forall>k. k \<notin> fst ` set (inst # rest) \<longrightarrow> comments w' ! k = comments w ! k"
    using ih(5) other by auto
  ultimately show ?case using ih f len by simp
qed


lemma runRegeneration_frame:
  assumes "runRegeneration e opts w = (x, w')"
  shows "worker w' = worker w
   \<and> story_regen (versionFilter opts) (stories w) (stories w')
   \<and> comment_regen (versionFilter opts) (comments w) (comments w')
   \<and> length (stories w') = length (stories w) \<and> length (comments w') = length (comments w)
   \<and> (\<forall>k. k \<notin> fst ` set (storiesToRegen opts (stories w)) \<longrightarrow> stories w' ! k = stories w ! k)
   \<and> (\<forall>k. k \<notin> fst ` set (commentsToRegen opts (comments w)) \<longrightarrow> comments w' ! k = comments w ! k)"
proof -
  let ?v = "versionFilter opts"
  define sp where "sp = (if regenType opts = ''all'' \<or> regenType opts = ''stories''
             then (case dbFault e StoryFindAll of
                     Some err \<Rightarrow> (Inl err, w)
                   | None \<Rightarrow>
                       (case regenStories e ?v (storiesToRegen opts (stories w)) no_summary w of
                          (g, w1) \<Rightarrow> (Inr g, w1)))
             else (Inr no_summary, w))"
  obtain y w1 where y: "sp = (y, w1)" by (cases sp)
  have sel: "\<forall>(k, s)\<in>set (storiesToRegen opts (stories w)).
               k < length (stories w) \<and> s_embedded (stories w ! k)"
    using storiesToRegen_sound by fastforce
  have f1: "comments w1 = comments w \<and> worker w1 = worker w
    \<and> story_regen ?v (stories w) (stories w1)
    \<and> length (stories w1) = length (stories w)
    \<and> (\<forall>k. k \<notin> fst ` set (storiesToRegen opts (stories w)) \<longrightarrow> stories w1 ! k = stories w ! k)"
  proof (cases "(regenType opts = ''all'' \<or> regenType opts = ''stories'')
                  \<and> dbFault e StoryFindAll = None")
    case False
    with y have "w1 = w" by (auto simp: sp_def split: if_splits option.splits)
    then show ?thesis by (auto intro: story_regen.intros)
  next
    case True
    obtain g w2 where l: "regenStories e ?v (storiesToRegen opts (stories w)) no_summary w = (g, w2)"
      by (cases "regenStories e ?v (storiesToRegen opts (stories w)) no_summary w")
    with True y have "w1 = w2" by (auto simp: sp_def)
    with regenStories_frame [OF l sel] show ?thesis by simp
  qed
  have sel2: "\<forall>(k, c)\<in>set (commentsToRegen opts (comments w1)).
               k < length (comments w1) \<and> c_embedded (comments w1 ! k)"
    using commentsToRegen_sound by fastforce
  have run: "runRegeneration e opts w =
      (case sp of
            (Inl err, w1) \<Rightarrow> (Inl err, w1)
          | (Inr g, w1) \<Rightarrow>
              if regenType opts = ''all'' \<or> regenType opts = ''comments''
              then (case dbFault e CommentFindAll of
                      Some err \<Rightarrow> (Inl err, w1)
                    | None \<Rightarrow>
                        (case regenComments e ?v (commentsToRegen opts (comments w1)) g w1 of
                           (g1, w2) \<Rightarrow> (Inr g1, w2)))
              else (Inr g, w1))"
    unfolding runRegeneration_def sp_def Let_def ..
  have f2: "stories w' = stories w1 \<and> worker w' = worker w1
    \<and> comment_regen ?v (comments w1) (comments w')
    \<and> length (comments w') = length (comments w1)
    \<and> (\<forall>k. k \<notin> fst ` set (commentsToRegen opts (comments w1)) \<longrightarrow> comments w' ! k = comments w1 ! k)"
  proof (cases "\<not> isl y \<and> (regenType opts = ''all'' \<or> regenType opts = ''comments'')
                  \<and> dbFault e CommentFindAll = None")
    case False
    with assms y have "w' = w1"
      unfolding run by (cases y) (auto split: if_splits option.splits)
    then show ?thesis by (auto intro: comment_regen.intros)
  next
    case True
    then obtain g where g: "y = Inr g" by (cases y) auto
    obtain g1 w2 where l: "regenComments e ?v (commentsToRegen opts (comments w1)) g w1 = (g1, w2)"
      by (cases "regenComments e ?v (commentsToRegen opts (comments w1)) g w1")
    with True assms y g have "w' = w2" unfolding run by auto
    with regenComments_frame [OF l sel2] show ?thesis by simp
  qed
  from f1 f2 show ?thesis by simp
qed

lemma story_regen_version:
  "story_regen v tbl tbl' \<Longrightarrow>
   length tbl' = length tbl
   \<and> (\<forall>k<length tbl. tbl' ! k = tbl ! k \<or> s_analysisVersion (tbl' ! k) = Some v)"
proof (induction rule: story_regen.induct)
  case sr_refl show ?case by simp
next
  case (sr_update tbl' row a now)
  then show ?case
    by (auto simp: nth_list_update Story_update_def storyRegenPatch_def)
qed

lemma comment_regen_version:
  "comment_regen v tbl tbl' \<Longrightarrow>
   length tbl' = length tbl
   \<and> (\<forall>k<length tbl. tbl' ! k = tbl ! k \<or> c_analysisVersion (tbl' ! k) = Some v)"
proof (induction rule: comment_regen.induct)
  case cr_refl show ?case by simp
next
  case (cr_update tbl' row a now)
  then show ?case
    by (auto simp: nth_list_update Comment_update_def commentRegenPatch_def)
qed

text \<open>
  C8.  A regeneration run with target version \<open>v\<close> (the given one, or the current analysis
  version) keeps the number of rows, leaves unchanged every row that is not embedded or
  whose analysis version is \<open>v\<close>, and gives every row it changes the version \<open>v\<close>.  When
  every embedded row already has version \<open>v\<close>, the run selects no story and no comment
  and changes nothing.  The bounds \<open>since\<close> and \<open>until\<close> of the options have no part in
  the selection: with any time window the run is the same.
\<close>

theorem regeneration_touches_only_stale_embedded:
  assumes "runRegeneration e opts w = (x, w')"
  shows "length (stories w') = length (stories w) \<and> length (comments w') = length (comments w)
   \<and> (\<forall>k<length (stories w).
         (\<not> (s_embedded (stories w ! k) \<and> s_analysisVersion (stories w ! k) \<noteq> Some (versionFilter opts))
            \<longrightarrow> stories w' ! k = stories w ! k)
         \<and> (stories w' ! k \<noteq> stories w ! k
            \<longrightarrow> s_analysisVersion (stories w' ! k) = Some (versionFilter opts)))
   \<and> (\<forall>k<length (comments w).
         (\<not> (c_embedded (comments w ! k) \<and> c_analysisVersion (comments w ! k) \<noteq> Some (versionFilter opts))
            \<longrightarrow> comments w' ! k = comments w ! k)
         \<and> (comments w' ! k \<noteq> comments w ! k
            \<longrightarrow> c_analysisVersion (comments w' ! k) = Some (versionFilter opts)))
   \<and> ((\<forall>s\<in>set (stories w). s_embedded s \<longrightarrow> s_analysisVersion s = Some (versionFilter opts))
        \<and> (\<forall>c\<in>set (comments w). c_embedded c \<longrightarrow> c_analysisVersion c = Some (versionFilter opts))
       \<longrightarrow> storiesToRegen opts (stories w) = [] \<and> commentsToRegen opts (comments w) = []
           \<and> w' = w \<and> (\<forall>g. x = Inr g \<longrightarrow> g = no_summary))
   \<and> runRegeneration e (opts\<lparr>o_since := lo, o_until := hi\<rparr>) w = (x, w')"
proof -
  let ?v = "versionFilter opts"
  from runRegeneration_frame [OF assms]
  have f: "worker w' = worker w" "story_regen ?v (stories w) (stories w')"
    "comment_regen ?v (comments w) (comments w')"
    "length (stories w') = length (stories w)" "length (comments w') = length (comments w)"
    "\<forall>k. k \<notin> fst ` set (storiesToRegen opts (stories w)) \<longrightarrow> stories w' ! k = stories w ! k"
    "\<forall>k. k \<notin> fst ` set (commentsToRegen opts (comments w)) \<longrightarrow> comments w' ! k = comments w ! k"
    by blast+
  have s1: "stories w' ! k = stories w ! k"
    if "k < length (stories w)"
      "\<not> (s_embedded (stories w ! k) \<and> s_analysisVersion (stories w ! k) \<noteq> Some ?v)" for k
  proof -
    have "k \<notin> fst ` set (storiesToRegen opts (stories w))"
    proof
      assume "k \<in> fst ` set (storiesToRegen opts (stories w))"
      then obtain s where "(k, s) \<in> set (storiesToRegen opts (stories w))" by force
      from storiesToRegen_sound [OF this] that(2) show False by auto
    qed
    with f(6) show ?thesis by simp
  qed
  have c1: "comments w' ! k = comments w ! k"
    if "k < length (comments w)"
      "\<not> (c_embedded (comments w ! k) \<and> c_analysisVersion (comments w ! k) \<noteq> Some ?v)" for k
  proof -
    have "k \<notin> fst ` set (commentsToRegen opts (comments w))"
    proof
      assume "k \<in> fst ` set (commentsToRegen opts (comments w))"
      then obtain c where "(k, c) \<in> set (commentsToRegen opts (comments w))" by force
      from commentsToRegen_sound [OF this] that(2) show False by auto
    qed
    with f(7) show ?thesis by simp
  qed
  have s2: "\<forall>k<length (stories w). stories w' ! k \<noteq> stories w ! k
              \<longrightarrow> s_analysisVersion (stories w' ! k) = Some ?v"
    using story_regen_version [OF f(2)] by blast
  have c2: "\<forall>k<length (comments w). comments w' ! k \<noteq> comments w ! k
              \<longrightarrow> c_analysisVersion (comments w' ! k) = Some ?v"
    using comment_regen_version [OF f(3)] by blast
  have fresh: "storiesToRegen opts (stories w) = [] \<and> commentsToRegen opts (comments w) = []
           \<and> w' = w \<and> (\<forall>g. x = Inr g \<longrightarrow> g = no_summary)"
    if a: "\<forall>s\<in>set (stories w). s_embedded s \<longrightarrow> s_analysisVersion s = Some ?v"
      and b: "\<forall>c\<in>set (comments w). c_embedded c \<longrightarrow> c_analysisVersion c = Some ?v"
  proof -
    have e1: "storiesToRegen opts (stories w) = []"
    proof (rule ccontr)
      assume "storiesToRegen opts (stories w) \<noteq> []"
      then obtain k s where "(k, s) \<in> set (storiesToRegen opts (stories w))"
        by (cases "storiesToRegen opts (stories w)") auto
      from storiesToRegen_sound [OF this] a show False by (metis nth_mem)
    qed
    have e2: "commentsToRegen opts (comments w) = []"
    proof (rule ccontr)
      assume "commentsToRegen opts (comments w) \<noteq> []"
      then obtain k c where "(k, c) \<in> set (commentsToRegen opts (comments w))"
        by (cases "commentsToRegen opts (comments w)") auto
      from commentsToRegen_sound [OF this] b show False by (metis nth_mem)
    qed
    from assms e1 e2 have "w' = w \<and> (\<forall>g. x = Inr g \<longrightarrow> g = no_summary)"
      by (auto simp: runRegeneration_def Let_def split: if_splits option.splits)
    with e1 e2 show ?thesis by simp
  qed
  have win: "runRegeneration e (opts\<lparr>o_since := lo, o_until := hi\<rparr>) w = (x, w')"
    using runRegeneration_ignores_window [where opts = opts and lo = lo and hi = hi and e = e
        and w = w] assms
    by simp
  from f(4,5) s1 c1 s2 c2 fresh win show ?thesis by blast
qed


theorem regeneration_touches_only_stale_embedded_witness:
  "map s_analysisVersion (stories analyzed_world) = [Some ''6'']
   \<and> map c_analysisVersion (comments analyzed_world) = [Some ''6'']
   \<and> versionFilter all_options = ''6''
   \<and> storiesToRegen all_options (stories analyzed_world) = []
   \<and> commentsToRegen all_options (comments analyzed_world) = []
   \<and> runRegeneration sample_env all_options analyzed_world = (Inr no_summary, analyzed_world)
   \<and> runRegeneration sample_env (all_options\<lparr>o_since := Some 99000, o_until := None\<rparr>)
         analyzed_world = (Inr no_summary, analyzed_world)
   \<and> map s_time (stories analyzed_world) = [96400]
   \<and> fst (runRegeneration sample_env
           (all_options\<lparr>o_targetVersion := Some ''7'', o_since := Some 99000\<rparr>) analyzed_world)
       = Inr \<lparr>g_storiesRegenerated = 1, g_commentsRegenerated = 1, g_errors = []\<rparr>
   \<and> map s_analysisVersion (stories (snd (runRegeneration sample_env
           (all_options\<lparr>o_targetVersion := Some ''7'', o_since := Some 99000\<rparr>) analyzed_world)))
       = [Some ''7'']"
proof -
  let ?w = "analyzed_world"
  let ?o7 = "all_options\<lparr>o_targetVersion := Some ''7'', o_since := Some 99000\<rparr>"
  have ev: "versionFilter all_options = ''6''
     \<and> map (\<lambda>s. (s_embedded s, s_analysisVersion s)) (stories ?w) = [(True, Some ''6'')]
     \<and> map (\<lambda>c. (c_embedded c, c_analysisVersion c)) (comments ?w) = [(True, Some ''6'')]
     \<and> map s_time (stories ?w) = [96400]"
    by code_simp
  then have v: "versionFilter all_options = ''6''"
    and s: "map (\<lambda>s. (s_embedded s, s_analysisVersion s)) (stories ?w) = [(True, Some ''6'')]"
    and c: "map (\<lambda>c. (c_embedded c, c_analysisVersion c)) (comments ?w) = [(True, Some ''6'')]"
    and tm: "map s_time (stories ?w) = [96400]"
    by blast+
  have 1: "map s_analysisVersion (stories ?w) = [Some ''6'']"
    using s by (cases "stories ?w") auto
  have 2: "map c_analysisVersion (comments ?w) = [Some ''6'']"
    using c by (cases "comments ?w") auto
  have ps: "\<forall>s\<in>set (stories ?w). s_embedded s \<longrightarrow> s_analysisVersion s = Some (versionFilter all_options)"
    using s v by (cases "stories ?w") auto
  have pc: "\<forall>c\<in>set (comments ?w). c_embedded c \<longrightarrow> c_analysisVersion c = Some (versionFilter all_options)"
    using c v by (cases "comments ?w") auto
  have run: "runRegeneration sample_env all_options ?w
               = (fst (runRegeneration sample_env all_options ?w),
                  snd (runRegeneration sample_env all_options ?w))" by simp
  note t = regeneration_touches_only_stale_embedded [where lo = "Some 99000" and hi = None, OF run]
  from t ps pc
  have r: "storiesToRegen all_options (stories ?w) = []"
    "commentsToRegen all_options (comments ?w) = []"
    "snd (runRegeneration sample_env all_options ?w) = ?w"
    "\<forall>g. fst (runRegeneration sample_env all_options ?w) = Inr g \<longrightarrow> g = no_summary"
    by blast+
  from t have rw: "runRegeneration sample_env (all_options\<lparr>o_since := Some 99000, o_until := None\<rparr>) ?w
       = (fst (runRegeneration sample_env all_options ?w),
          snd (runRegeneration sample_env all_options ?w))"
    by blast
  have nf: "dbFault sample_env op = None" for op by (simp add: sample_env_def)
  have "\<exists>g. fst (runRegeneration sample_env all_options ?w) = Inr g"
    using r(1,2) nf by (simp add: runRegeneration_def Let_def split: prod.splits)
  with r(4) have "fst (runRegeneration sample_env all_options ?w) = Inr no_summary" by auto
  with r(3) have 3: "runRegeneration sample_env all_options ?w = (Inr no_summary, ?w)"
    by (metis prod.collapse)
  from rw 3 have win: "runRegeneration sample_env
      (all_options\<lparr>o_since := Some 99000, o_until := None\<rparr>) ?w = (Inr no_summary, ?w)"
    by simp
  have 4: "fst (runRegeneration sample_env ?o7 ?w)
       = Inr \<lparr>g_storiesRegenerated = 1, g_commentsRegenerated = 1, g_errors = []\<rparr>
     \<and> map s_analysisVersion (stories (snd (runRegeneration sample_env ?o7 ?w))) = [Some ''7'']"
    by code_simp
  from 1 2 v r(1,2) 3 win tm 4 show ?thesis by (intro conjI) (erule conjE | assumption)+
qed

section \<open>Invariants of the stored rows\<close>

lemma story_regen_preserves:
  assumes "story_regen v tbl tbl'"
    and "list_all P tbl"
    and "\<And>s a now. P s \<Longrightarrow> s_embedded s \<Longrightarrow>
           P (Story_update (storyRegenPatch a (normalizeConcepts (sa_concepts a)) v now) s)"
  shows "list_all P tbl'"
  using assms(1)
proof (induction rule: story_regen.induct)
  case sr_refl then show ?case using assms(2) by simp
next
  case (sr_update tbl' row a now)
  from sr_update.IH sr_update.hyps(2) have "P (tbl' ! row)" by (simp add: list_all_length)
  with sr_update.hyps(3)
  have "P (Story_update (storyRegenPatch a (normalizeConcepts (sa_concepts a)) v now) (tbl' ! row))"
    by (intro assms(3))
  with sr_update.IH show ?case by (rule list_all_update)
qed

lemma comment_regen_preserves:
  assumes "comment_regen v tbl tbl'"
    and "list_all Q tbl"
    and "\<And>c a now. Q c \<Longrightarrow> c_embedded c \<Longrightarrow>
           Q (Comment_update (commentRegenPatch a (normalizeConcepts (ca_concepts a)) v now) c)"
  shows "list_all Q tbl'"
  using assms(1)
proof (induction rule: comment_regen.induct)
  case cr_refl then show ?case using assms(2) by simp
next
  case (cr_update tbl' row a now)
  from cr_update.IH cr_update.hyps(2) have "Q (tbl' ! row)" by (simp add: list_all_length)
  with cr_update.hyps(3)
  have "Q (Comment_update (commentRegenPatch a (normalizeConcepts (ca_concepts a)) v now) (tbl' ! row))"
    by (intro assms(3))
  with cr_update.IH show ?case by (rule list_all_update)
qed

lemma runIngestionCycle_writes:
  "story_write (fresh_story e) (stories w) (stories (snd (runIngestionCycle e w)))
   \<and> comment_write (comments w) (comments (snd (runIngestionCycle e w)))"
  using runIngestionCycle_frame [of e w "fst (runIngestionCycle e w)" "snd (runIngestionCycle e w)"]
  by simp

lemma runRegeneration_writes:
  "story_regen (versionFilter opts) (stories w) (stories (snd (runRegeneration e opts w)))
   \<and> comment_regen (versionFilter opts) (comments w) (comments (snd (runRegeneration e opts w)))"
  using runRegeneration_frame [of e opts w "fst (runRegeneration e opts w)"
          "snd (runRegeneration e opts w)"]
  by simp

text \<open>
  C1, as amended.  If \<open>embedded\<close> holds exactly of the rows with an analysis version
  before an ingestion cycle or a regeneration run, it does so after it.  The ingestion
  writes the two fields together: its only update that touches either one sets
  \<open>embedded = true\<close> and \<open>analysisVersion = ANALYSIS_VERSION\<close> at once (the refresh of a
  stored story touches neither).  The regeneration writes \<open>analysisVersion\<close> alone, to a
  non-null target, and only on rows that are embedded.  These are all the writes: the
  tables after a cycle, or after a run, come from the tables before by writes of these
  kinds.
\<close>

theorem analyzed_iff_is_preserved:
  "(list_all story_analyzed_iff (stories w) \<longrightarrow>
      list_all story_analyzed_iff (stories (snd (runIngestionCycle e w)))
      \<and> list_all story_analyzed_iff (stories (snd (runRegeneration e opts w))))
   \<and> (list_all comment_analyzed_iff (comments w) \<longrightarrow>
      list_all comment_analyzed_iff (comments (snd (runIngestionCycle e w)))
      \<and> list_all comment_analyzed_iff (comments (snd (runRegeneration e opts w))))
   \<and> sp_embedded (storyAnalysisPatch a cs now) = Some True
   \<and> sp_analysisVersion (storyAnalysisPatch a cs now) = Some ANALYSIS_VERSION
   \<and> cp_embedded (commentAnalysisPatch b cs now) = Some True
   \<and> cp_analysisVersion (commentAnalysisPatch b cs now) = Some ANALYSIS_VERSION
   \<and> sp_embedded (storyRefreshPatch item s) = None
   \<and> sp_analysisVersion (storyRefreshPatch item s) = None
   \<and> sp_embedded (storyRegenPatch a cs v now) = None
   \<and> sp_analysisVersion (storyRegenPatch a cs v now) = Some v
   \<and> cp_embedded (commentRegenPatch b cs v now) = None
   \<and> cp_analysisVersion (commentRegenPatch b cs v now) = Some v
   \<and> story_write (fresh_story e) (stories w) (stories (snd (runIngestionCycle e w)))
   \<and> comment_write (comments w) (comments (snd (runIngestionCycle e w)))
   \<and> story_regen (versionFilter opts) (stories w) (stories (snd (runRegeneration e opts w)))
   \<and> comment_regen (versionFilter opts) (comments w) (comments (snd (runRegeneration e opts w)))"
proof -
  have s1: "list_all story_analyzed_iff (stories (snd (runIngestionCycle e w)))"
    if "list_all story_analyzed_iff (stories w)"
    using runIngestionCycle_writes [THEN conjunct1] that
    by (rule story_write_preserves)
       (simp_all add: story_analyzed_iff_def newStory_def Story_update_def storyRefreshPatch_def
          storyAnalysisPatch_def)
  have s2: "list_all story_analyzed_iff (stories (snd (runRegeneration e opts w)))"
    if "list_all story_analyzed_iff (stories w)"
    using runRegeneration_writes [THEN conjunct1] that
    by (rule story_regen_preserves)
       (simp add: story_analyzed_iff_def Story_update_def storyRegenPatch_def)
  have c1: "list_all comment_analyzed_iff (comments (snd (runIngestionCycle e w)))"
    if "list_all comment_analyzed_iff (comments w)"
    using runIngestionCycle_writes [THEN conjunct2] that
    by (rule comment_write_preserves)
       (simp_all add: comment_analyzed_iff_def newComment_def Comment_update_def
          commentAnalysisPatch_def)
  have c2: "list_all comment_analyzed_iff (comments (snd (runRegeneration e opts w)))"
    if "list_all comment_analyzed_iff (comments w)"
    using runRegeneration_writes [THEN conjunct2] that
    by (rule comment_regen_preserves)
       (simp add: comment_analyzed_iff_def Comment_update_def commentRegenPatch_def)
  have p: "sp_embedded (storyAnalysisPatch a cs now) = Some True
   \<and> sp_analysisVersion (storyAnalysisPatch a cs now) = Some ANALYSIS_VERSION
   \<and> cp_embedded (commentAnalysisPatch b cs now) = Some True
   \<and> cp_analysisVersion (commentAnalysisPatch b cs now) = Some ANALYSIS_VERSION
   \<and> sp_embedded (storyRefreshPatch item s) = None
   \<and> sp_analysisVersion (storyRefreshPatch item s) = None
   \<and> sp_embedded (storyRegenPatch a cs v now) = None
   \<and> sp_analysisVersion (storyRegenPatch a cs v now) = Some v
   \<and> cp_embedded (commentRegenPatch b cs v now) = None
   \<and> cp_analysisVersion (commentRegenPatch b cs v now) = Some v"
    by (simp add: storyAnalysisPatch_def commentAnalysisPatch_def storyRefreshPatch_def
          storyRegenPatch_def commentRegenPatch_def)
  from s1 s2 c1 c2 p runIngestionCycle_writes [of e w] runRegeneration_writes [of opts w e]
  show ?thesis by blast
qed

theorem analyzed_iff_is_preserved_witness:
  "list_all story_analyzed_iff (stories analyzed_world)
   \<and> list_all comment_analyzed_iff (comments analyzed_world)
   \<and> list_all story_analyzed_iff (stories (snd (runIngestionCycle sample_env analyzed_world)))
   \<and> list_all comment_analyzed_iff (comments (snd (runIngestionCycle sample_env analyzed_world)))
   \<and> list_all story_analyzed_iff (stories (snd (runRegeneration sample_env
        (all_options\<lparr>o_targetVersion := Some ''7''\<rparr>) analyzed_world)))
   \<and> list_all comment_analyzed_iff (comments (snd (runRegeneration sample_env
        (all_options\<lparr>o_targetVersion := Some ''7''\<rparr>) analyzed_world)))"
proof -
  have n: "list_all story_analyzed_iff (stories analyzed_world)
   \<and> list_all comment_analyzed_iff (comments analyzed_world)"
    by code_simp
  note t = analyzed_iff_is_preserved [where e = sample_env and w = analyzed_world
      and opts = "all_options\<lparr>o_targetVersion := Some ''7''\<rparr>"]
  from t n show ?thesis by blast
qed

text \<open>
  C1 as stated fails.  A regeneration run to version 7 over a store whose story 101 is
  analysed at version 6 updates the row; the update sets \<open>analysisVersion\<close> and has no
  \<open>embedded\<close> key (the update of a comment has the same shape), so the two fields are not
  written together.  And a row that is embedded without an analysis version, which the
  regeneration selects by its \<open>analysisVersion: null\<close> alternative, is still so after an
  ingestion cycle that meets it.
\<close>

theorem regeneration_writes_version_alone_counterexample:
  "stories (snd (runRegeneration sample_env (all_options\<lparr>o_targetVersion := Some ''7''\<rparr>)
       analyzed_world))
     = [Story_update (storyRegenPatch sample_story_analysis
                        (normalizeConcepts (sa_concepts sample_story_analysis)) ''7'' 100000000)
          (stories analyzed_world ! 0)]
   \<and> sp_analysisVersion (storyRegenPatch sample_story_analysis
         (normalizeConcepts (sa_concepts sample_story_analysis)) ''7'' 100000000) = Some ''7''
   \<and> sp_embedded (storyRegenPatch sample_story_analysis
         (normalizeConcepts (sa_concepts sample_story_analysis)) ''7'' 100000000) = None
   \<and> cp_analysisVersion (commentRegenPatch sample_comment_analysis
         (normalizeConcepts (ca_concepts sample_comment_analysis)) ''7'' 100000000) = Some ''7''
   \<and> cp_embedded (commentRegenPatch sample_comment_analysis
         (normalizeConcepts (ca_concepts sample_comment_analysis)) ''7'' 100000000) = None
   \<and> map s_embedded (stories legacy_world) = [True]
   \<and> map s_analysisVersion (stories legacy_world) = [None]
   \<and> \<not> list_all story_analyzed_iff (stories (snd (runIngestionCycle sample_env legacy_world)))"
  by code_simp

text \<open>
  The concepts columns of the two tables.  Whatever the analysis returns, every string of
  \<open>normalizeConcepts\<close> is lowercase, has no underscore, no run of two or more whitespace
  characters, is trimmed and is not empty.  After an ingestion cycle or a regeneration
  run, the concepts of every row are null (not analysed), or the concepts some row had
  before, or a result of \<open>normalizeConcepts\<close>.  Hence, if the concepts of all rows have the
  normalised shape before a cycle or a run, they have it after.
\<close>

lemma stored_concepts_are_normalized:
  "(\<forall>c\<in>set (normalizeConcepts cs).
       toLowerCase c = c \<and> CHR ''_'' \<notin> set c \<and> \<not> has_ws_run c \<and> trim c = c \<and> c \<noteq> [])
   \<and> (\<forall>s\<in>set (stories (snd (runIngestionCycle e w)))
             \<union> set (stories (snd (runRegeneration e opts w))).
        s_concepts s = None \<or> s_concepts s \<in> s_concepts ` set (stories w)
        \<or> (\<exists>l. s_concepts s = Some (normalizeConcepts l)))
   \<and> (\<forall>c\<in>set (comments (snd (runIngestionCycle e w)))
             \<union> set (comments (snd (runRegeneration e opts w))).
        c_concepts c = None \<or> c_concepts c \<in> c_concepts ` set (comments w)
        \<or> (\<exists>l. c_concepts c = Some (normalizeConcepts l)))
   \<and> (list_all (\<lambda>s. concepts_ok (s_concepts s)) (stories w) \<longrightarrow>
        list_all (\<lambda>s. concepts_ok (s_concepts s)) (stories (snd (runIngestionCycle e w)))
        \<and> list_all (\<lambda>s. concepts_ok (s_concepts s)) (stories (snd (runRegeneration e opts w))))
   \<and> (list_all (\<lambda>c. concepts_ok (c_concepts c)) (comments w) \<longrightarrow>
        list_all (\<lambda>c. concepts_ok (c_concepts c)) (comments (snd (runIngestionCycle e w)))
        \<and> list_all (\<lambda>c. concepts_ok (c_concepts c)) (comments (snd (runRegeneration e opts w))))"
proof -
  define P :: "Story \<Rightarrow> bool" where "P s \<longleftrightarrow> s_concepts s = None \<or> s_concepts s \<in> s_concepts ` set (stories w)
        \<or> (\<exists>l. s_concepts s = Some (normalizeConcepts l))" for s
  define Q :: "Comment \<Rightarrow> bool" where "Q c \<longleftrightarrow> c_concepts c = None \<or> c_concepts c \<in> c_concepts ` set (comments w)
        \<or> (\<exists>l. c_concepts c = Some (normalizeConcepts l))" for c
  have P0: "list_all P (stories w)" by (simp add: P_def list_all_iff)
  have Q0: "list_all Q (comments w)" by (simp add: Q_def list_all_iff)
  have n: "concepts_ok (Some (normalizeConcepts l))" for l
    using normalizeConcepts_ok by (auto simp: concepts_ok_def list_all_iff)
  have 0: "\<forall>c\<in>set (normalizeConcepts cs).
       toLowerCase c = c \<and> CHR ''_'' \<notin> set c \<and> \<not> has_ws_run c \<and> trim c = c \<and> c \<noteq> []"
    using normalizeConcepts_ok [of _ cs] by (auto simp: concept_ok_def)
  have p1: "list_all P (stories (snd (runIngestionCycle e w)))"
    using runIngestionCycle_writes [THEN conjunct1] P0
  proof (rule story_write_preserves)
    show "P (newStory item)" for item by (simp add: P_def newStory_def)
    show "P (Story_update (storyRefreshPatch item s) s)" if "P s" for s item
      using that by (simp add: P_def Story_update_def storyRefreshPatch_def)
    show "P (Story_update (storyAnalysisPatch a (normalizeConcepts (sa_concepts a)) now) s)"
      for s a now
      by (auto simp: P_def Story_update_def storyAnalysisPatch_def)
  qed
  have p2: "list_all P (stories (snd (runRegeneration e opts w)))"
    using runRegeneration_writes [THEN conjunct1] P0
  proof (rule story_regen_preserves)
    show "P (Story_update
            (storyRegenPatch a (normalizeConcepts (sa_concepts a)) (versionFilter opts) now) s)"
      for s a now
      by (auto simp: P_def Story_update_def storyRegenPatch_def)
  qed
  have q1: "list_all Q (comments (snd (runIngestionCycle e w)))"
    using runIngestionCycle_writes [THEN conjunct2] Q0
  proof (rule comment_write_preserves)
    show "Q (newComment ci sid)" for ci sid by (simp add: Q_def newComment_def)
    show "Q (Comment_update (commentAnalysisPatch a (normalizeConcepts (ca_concepts a)) now) c)"
      for c a now
      by (auto simp: Q_def Comment_update_def commentAnalysisPatch_def)
  qed
  have q2: "list_all Q (comments (snd (runRegeneration e opts w)))"
    using runRegeneration_writes [THEN conjunct2] Q0
  proof (rule comment_regen_preserves)
    show "Q (Comment_update
            (commentRegenPatch a (normalizeConcepts (ca_concepts a)) (versionFilter opts) now) c)"
      for c a now
      by (auto simp: Q_def Comment_update_def commentRegenPatch_def)
  qed
  from p1 p2 have 1: "\<forall>s\<in>set (stories (snd (runIngestionCycle e w)))
             \<union> set (stories (snd (runRegeneration e opts w))).
        s_concepts s = None \<or> s_concepts s \<in> s_concepts ` set (stories w)
        \<or> (\<exists>l. s_concepts s = Some (normalizeConcepts l))"
    unfolding list_all_iff P_def by blast
  from q1 q2 have 2: "\<forall>c\<in>set (comments (snd (runIngestionCycle e w)))
             \<union> set (comments (snd (runRegeneration e opts w))).
        c_concepts c = None \<or> c_concepts c \<in> c_concepts ` set (comments w)
        \<or> (\<exists>l. c_concepts c = Some (normalizeConcepts l))"
    unfolding list_all_iff Q_def by blast
  have ok1: "concepts_ok (s_concepts s)"
    if "list_all (\<lambda>s. concepts_ok (s_concepts s)) (stories w)" and "P s" for s
    using that n unfolding P_def list_all_iff by (auto simp: concepts_ok_def)
  have ok2: "concepts_ok (c_concepts c)"
    if "list_all (\<lambda>c. concepts_ok (c_concepts c)) (comments w)" and "Q c" for c
    using that n unfolding Q_def list_all_iff by (auto simp: concepts_ok_def)
  have 3: "list_all (\<lambda>s. concepts_ok (s_concepts s)) (stories w) \<longrightarrow>
        list_all (\<lambda>s. concepts_ok (s_concepts s)) (stories (snd (runIngestionCycle e w)))
        \<and> list_all (\<lambda>s. concepts_ok (s_concepts s)) (stories (snd (runRegeneration e opts w)))"
    using p1 p2 ok1 unfolding list_all_iff by blast
  have 4: "list_all (\<lambda>c. concepts_ok (c_concepts c)) (comments w) \<longrightarrow>
        list_all (\<lambda>c. concepts_ok (c_concepts c)) (comments (snd (runIngestionCycle e w)))
        \<and> list_all (\<lambda>c. concepts_ok (c_concepts c)) (comments (snd (runRegeneration e opts w)))"
    using q1 q2 ok2 unfolding list_all_iff by blast
  from 0 1 2 3 4 show ?thesis by (intro conjI)
qed

text \<open>
  C3.  Not every concept string that the ingestion stores is normalised.  For a new
  story the row gets the normalised concepts, but the metadata written to the vector
  index gets \<open>JSON.stringify(analysis.concepts)\<close>, the strings as the analysis returned
  them: here with capitals, an underscore, a double space and a blank string.  The
  metadata written for a new comment, and those written by the regeneration, hold the
  normalised list.
\<close>

theorem new_story_index_keeps_raw_concepts:
  "sa_concepts sample_story_analysis = [''Open_Source  Sustainability'', '' '']
   \<and> map s_concepts (stories (snd (runIngestionCycle sample_env empty_world)))
       = [Some [''open source sustainability'']]
   \<and> map fst (storyCollection (snd (runIngestionCycle sample_env empty_world))) = [''story_101'']
   \<and> map (sm_concepts \<circ> snd \<circ> snd)
         (storyCollection (snd (runIngestionCycle sample_env empty_world)))
       = [''['' @ dq @ ''Open_Source  Sustainability'' @ dq @ '','' @ dq @ '' '' @ dq @ '']'']
   \<and> map (cm_concepts \<circ> snd \<circ> snd)
         (commentCollection (snd (runIngestionCycle sample_env empty_world)))
       = [''['' @ dq @ ''type safety'' @ dq @ '']'']
   \<and> map (sm_concepts \<circ> snd \<circ> snd)
         (storyCollection (snd (runRegeneration sample_env
            (all_options\<lparr>o_targetVersion := Some ''7''\<rparr>) analyzed_world)))
       = [''['' @ dq @ ''open source sustainability'' @ dq @ '']'']"
  by code_simp

end
